theory Spec2Isabelle
  imports Complex_Main
begin

section \<open>The augmentation engine of App.tsx\<close>

text \<open>
  The engine is the pair \<open>applyAugmentation\<close> / \<open>handleGenerate\<close> of \<open>src/App.tsx\<close>.
  A JavaScript number is a double. Parameters and draws are finite doubles, written as
  the real numbers they denote. The numbers that decide a discrete outcome (the noise
  trial, the bound of a loop, a stored byte) are computed as the source does, every
  operation rounded to the nearest double, with \<open>Infinity\<close> and \<open>NaN\<close> where the
  pixel arithmetic can reach them. The numbers that only travel to the canvas as
  arguments of a drawing call (angles, positions, sizes, colours, the quality) and the
  hue rotation, which nothing reads, are kept as the exact values of their expressions.
  The sign of a zero is not modelled: nothing in the source depends on it.
  \<open>Math.random\<close> is an explicit stream of draws that every call consumes from the
  front, with a counter of the calls made. A probability is read on the draws: an event
  decided by one draw has the probability of the set of draws in \<open>[0, 1)\<close> on which it
  happens, the length of that set when it is an interval.
\<close>

subsection \<open>Random draws\<close>

record rng =
  draws :: "nat \<Rightarrow> real"
  used :: nat

text \<open>\<open>Math.random()\<close>: return the next draw and advance the stream.\<close>

definition random :: "rng \<Rightarrow> real \<times> rng" where
  "random r = (draws r 0, \<lparr>draws = (\<lambda>n. draws r (Suc n)), used = Suc (used r)\<rparr>)"

text \<open>The range of \<open>Math.random\<close>: every draw lies in \<open>[0, 1)\<close>.\<close>

definition unit_draws :: "rng \<Rightarrow> bool" where
  "unit_draws r = (\<forall>n. 0 \<le> draws r n \<and> draws r n < 1)"

subsection \<open>Double arithmetic\<close>

text \<open>
  Rounding to the nearest integer, a tie to the even one; the binade of a positive
  number (the exponent \<open>e\<close> with \<open>2^e \<le> x < 2^(e+1)\<close>); the unit in the last place of a
  double near \<open>x\<close>, with the fixed unit \<open>2^-1074\<close> of the subnormal range; and \<open>rnd\<close>,
  the double nearest to a real number when no overflow is possible.
\<close>

definition round_half_even :: "real \<Rightarrow> int" where
  "round_half_even x =
     (let f = \<lfloor>x\<rfloor>
      in if real_of_int f + 1 / 2 < x then f + 1
         else if x < real_of_int f + 1 / 2 then f
         else if even f then f else f + 1)"

function binade :: "real \<Rightarrow> int" where
  "binade x =
     (if x \<le> 0 then 0
      else if 2 \<le> x then binade (x / 2) + 1
      else if x < 1 then binade (x * 2) - 1
      else 0)"
  by pat_completeness auto
termination
proof (relation "measure (\<lambda>x. nat \<bar>\<lfloor>log 2 x\<rfloor>\<bar>)")
  show "wf (measure (\<lambda>x. nat \<bar>\<lfloor>log 2 x\<rfloor>\<bar>))" by simp
next
  fix x :: real
  assume "\<not> x \<le> 0" and x: "2 \<le> x"
  define f where "f = \<lfloor>log 2 x\<rfloor>"
  have "1 \<le> log 2 x" using x by (simp add: le_log_iff)
  then have f: "1 \<le> f" unfolding f_def by linarith
  have "log 2 (x / 2) = log 2 x - 1" using x by (simp add: log_divide)
  then have "\<lfloor>log 2 (x / 2)\<rfloor> = f - 1" unfolding f_def by simp
  with f have "nat \<bar>\<lfloor>log 2 (x / 2)\<rfloor>\<bar> < nat \<bar>f\<bar>" by linarith
  then show "(x / 2, x) \<in> measure (\<lambda>x. nat \<bar>\<lfloor>log 2 x\<rfloor>\<bar>)"
    unfolding f_def by simp
next
  fix x :: real
  assume p: "\<not> x \<le> 0" and "\<not> 2 \<le> x" and x: "x < 1"
  define f where "f = \<lfloor>log 2 x\<rfloor>"
  have "log 2 x < 0" using x p by simp
  then have f: "f < 0" unfolding f_def by linarith
  have "log 2 (x * 2) = log 2 x + 1" using p by (simp add: log_mult)
  then have "\<lfloor>log 2 (x * 2)\<rfloor> = f + 1" unfolding f_def by simp
  with f have "nat \<bar>\<lfloor>log 2 (x * 2)\<rfloor>\<bar> < nat \<bar>f\<bar>" by linarith
  then show "(x * 2, x) \<in> measure (\<lambda>x. nat \<bar>\<lfloor>log 2 x\<rfloor>\<bar>)"
    unfolding f_def by simp
qed

declare binade.simps [simp del]

definition pow2 :: "int \<Rightarrow> real" where
  "pow2 e = (if 0 \<le> e then 2 ^ nat e else 1 / 2 ^ nat (- e))"

definition ulp :: "real \<Rightarrow> real" where
  "ulp x = pow2 (max (binade \<bar>x\<bar>) (- 1022) - 52)"

definition rnd :: "real \<Rightarrow> real" where
  "rnd x = real_of_int (round_half_even (x / ulp x)) * ulp x"

text \<open>
  The numbers of the pixel arithmetic, where \<open>Math.pow\<close> and an overflow can produce
  an infinity, and an infinity a NaN. \<open>fl\<close> rounds an exact result and overflows as
  IEEE 754 does: when the rounded magnitude reaches \<open>2^1024\<close>.
\<close>

datatype number = Num real | PInf | NInf | NaN

definition fl :: "real \<Rightarrow> number" where
  "fl x = (if 2 ^ 1024 \<le> rnd x then PInf else if rnd x \<le> - (2 ^ 1024) then NInf
           else Num (rnd x))"

fun js_neg :: "number \<Rightarrow> number" where
  "js_neg (Num a) = Num (- a)"
| "js_neg PInf = NInf"
| "js_neg NInf = PInf"
| "js_neg NaN = NaN"

fun js_add :: "number \<Rightarrow> number \<Rightarrow> number" where
  "js_add (Num a) (Num b) = fl (a + b)"
| "js_add NaN _ = NaN"
| "js_add _ NaN = NaN"
| "js_add PInf NInf = NaN"
| "js_add NInf PInf = NaN"
| "js_add PInf _ = PInf"
| "js_add _ PInf = PInf"
| "js_add NInf _ = NInf"
| "js_add _ NInf = NInf"

definition js_sub :: "number \<Rightarrow> number \<Rightarrow> number" where
  "js_sub a b = js_add a (js_neg b)"

fun js_mul :: "number \<Rightarrow> number \<Rightarrow> number" where
  "js_mul (Num a) (Num b) = fl (a * b)"
| "js_mul NaN _ = NaN"
| "js_mul _ NaN = NaN"
| "js_mul (Num a) b = (if a = 0 then NaN else if 0 < a then b else js_neg b)"
| "js_mul a (Num b) = (if b = 0 then NaN else if 0 < b then a else js_neg a)"
| "js_mul PInf b = b"
| "js_mul NInf b = js_neg b"

text \<open>\<open>Math.max\<close> and \<open>Math.min\<close> of two numbers: NaN if either is.\<close>

fun js_max :: "number \<Rightarrow> number \<Rightarrow> number" where
  "js_max NaN _ = NaN"
| "js_max _ NaN = NaN"
| "js_max PInf _ = PInf"
| "js_max _ PInf = PInf"
| "js_max NInf b = b"
| "js_max a NInf = a"
| "js_max (Num a) (Num b) = Num (max a b)"

fun js_min :: "number \<Rightarrow> number \<Rightarrow> number" where
  "js_min NaN _ = NaN"
| "js_min _ NaN = NaN"
| "js_min NInf _ = NInf"
| "js_min _ NInf = NInf"
| "js_min PInf b = b"
| "js_min a PInf = a"
| "js_min (Num a) (Num b) = Num (min a b)"

text \<open>
  The draws as \<open>Math.random\<close> returns them: each is a double of \<open>[0, 1)\<close>. A double is
  a number that rounding leaves as it is.
\<close>

definition double_draws :: "rng \<Rightarrow> bool" where
  "double_draws r = (\<forall>n. rnd (draws r n) = draws r n \<and> 0 \<le> draws r n \<and> draws r n < 1)"

subsection \<open>Types of the source and of the canvas interface\<close>

record AugmentationParams =
  harshness :: real
  lightAging :: real
  dirtiness :: real

text \<open>
  An \<open>HTMLImageElement\<close> as the engine uses it: its dimensions, and the source string
  that identifies its content.
\<close>

record HTMLImageElement =
  img_width :: nat
  img_height :: nat
  img_src :: string

datatype color = Rgba real real real real

datatype paint =
    Color color
  | LinearGradient real real real real "(real \<times> color) list"
  | RadialGradient real real real real real real "(real \<times> color) list"

text \<open>The calls the source makes on the 2D context, in the order it makes them.\<close>

datatype ctx_call =
    Save
  | Restore
  | Translate real real
  | Transform real real real real real real
  | Rotate real
  | DrawImage HTMLImageElement real real
  | PutImageData "nat list" nat nat
  | SetFillStyle paint
  | SetStrokeStyle paint
  | SetLineWidth real
  | FillRect real real real real
  | BeginPath
  | MoveTo real real
  | LineTo real real
  | Stroke
  | Arc real real real real real
  | Rect real real real real
  | Fill

text \<open>
  A canvas is its two dimensions and the drawing calls received so far. What the calls
  paint is the browser's business: the rasteriser is a parameter of the model.
\<close>

record canvas =
  width :: nat
  height :: nat
  calls :: "ctx_call list"

datatype data_url = Jpeg canvas real

record GeneratedImage =
  id_n :: nat
  dataUrl :: data_url
  name :: string

datatype error = IndexSizeError

text \<open>
  The browser: \<open>decode\<close> loads a source string into an image (\<open>None\<close>: the image never
  loads and \<open>onload\<close> never fires), \<open>raster w h cs\<close> is the RGBA byte buffer of a
  \<open>w \<times> h\<close> canvas after the calls \<open>cs\<close>, and \<open>pow x y\<close> is the value of
  \<open>Math.pow(x, y)\<close> for a nonzero base and a nonzero exponent, which ECMAScript leaves
  to the implementation to approximate.
\<close>

record platform =
  decode :: "string \<Rightarrow> HTMLImageElement option"
  raster :: "nat \<Rightarrow> nat \<Rightarrow> ctx_call list \<Rightarrow> nat list"
  pow :: "real \<Rightarrow> real \<Rightarrow> number"

definition AUGMENTATION_COUNT :: nat where
  "AUGMENTATION_COUNT = 20"

definition draw :: "ctx_call list \<Rightarrow> canvas \<Rightarrow> canvas" where
  "draw cs cv = cv\<lparr>calls := calls cv @ cs\<rparr>"

subsection \<open>A. Geometric stage\<close>

record geometry =
  rot :: real
  scl :: real
  skewX :: real
  skewY :: real
  tx :: real
  ty :: real
  flipH :: bool

definition geometric_draws :: "canvas \<Rightarrow> nat \<Rightarrow> rng \<Rightarrow> geometry \<times> rng" where
  "geometric_draws cv index r =
     (let (u1, r1) = random r;
          (u2, r2) = random r1;
          (u3, r3) = random r2;
          (u4, r4) = random r3;
          (u5, r5) = random r4;
          (u6, r6) = random r5;
          (u7, r7) = random r6
      in (\<lparr>rot = (u1 - 0.5) * 40 * (if index = 0 then 0 else 1),
           scl = 0.85 + u2 * 0.3,
           skewX = (u3 - 0.5) * 0.2,
           skewY = (u4 - 0.5) * 0.2,
           tx = (u5 - 0.5) * (real (width cv) * 0.15),
           ty = (u6 - 0.5) * (real (height cv) * 0.15),
           flipH = (u7 > 0.5)\<rparr>, r7))"

definition geometric_paint :: "HTMLImageElement \<Rightarrow> geometry \<Rightarrow> canvas \<Rightarrow> canvas" where
  "geometric_paint img g cv =
     draw [Save,
           Translate (real (width cv) / 2 + tx g) (real (height cv) / 2 + ty g),
           Transform (scl g * (if flipH g then - 1 else 1)) (skewX g) (skewY g) (scl g) 0 0,
           Rotate ((rot g * pi) / 180),
           DrawImage img (- real (width cv) / 2) (- real (height cv) / 2),
           Restore] cv"

definition geometric_stage ::
  "HTMLImageElement \<Rightarrow> nat \<Rightarrow> canvas \<Rightarrow> rng \<Rightarrow> canvas \<times> rng" where
  "geometric_stage img index cv r =
     (let (g, r') = geometric_draws cv index r in (geometric_paint img g cv, r'))"

subsection \<open>B. Pixel pass: photometric adjustment and noise\<close>

record photometric =
  pBrightness :: real
  pContrast :: real
  pGamma :: real
  hueRotation :: real
  rGain :: real
  gGain :: real
  bGain :: real

text \<open>
  Lines 113 to 121, each operation rounded; a decimal literal such as \<open>0.8\<close> is the
  double nearest to it. For a parameter that is a double and draws in \<open>[0, 1)\<close> no
  operation of these lines overflows: the largest product is \<open>0.75\<close> times the
  parameter.
\<close>

definition photometric_draws :: "AugmentationParams \<Rightarrow> rng \<Rightarrow> photometric \<times> rng" where
  "photometric_draws p r =
     (let (u1, r1) = random r;
          (u2, r2) = random r1;
          (u3, r3) = random r2;
          (u4, r4) = random r3;
          (u5, r5) = random r4;
          (u6, r6) = random r5;
          (u7, r7) = random r6
      in (\<lparr>pBrightness = rnd (rnd (rnd (lightAging p / 100) * rnd (u1 - 0.5)) * 150),
           pContrast = rnd (0.5 + rnd (u2 * rnd (lightAging p / 50))),
           pGamma = rnd (0.5 + rnd (u3 * rnd (lightAging p / 50))),
           hueRotation = (lightAging p / 100) * 360 * u4,
           rGain = rnd (rnd 0.8 + rnd (u5 * rnd 0.4)),
           gGain = rnd (rnd 0.8 + rnd (u6 * rnd 0.4)),
           bGain = rnd (rnd 0.8 + rnd (u7 * rnd 0.4))\<rparr>, r7))"

text \<open>
  \<open>Math.pow\<close> on a finite base and a finite exponent: 1 for the exponent 0, then for
  the base 0 the value 0 or \<open>+Infinity\<close> by the sign of the exponent, otherwise the
  platform's approximation (which overflows to \<open>Infinity\<close> and underflows to 0 where
  the power does).
\<close>

definition math_pow :: "platform \<Rightarrow> real \<Rightarrow> real \<Rightarrow> number" where
  "math_pow pf x y =
     (if y = 0 then Num 1
      else if x = 0 then (if 0 < y then Num 0 else PInf)
      else pow pf x y)"

text \<open>
  The conversion of a number stored into a \<open>Uint8ClampedArray\<close>: NaN becomes 0, the
  others are clamped to \<open>[0, 255]\<close> and rounded to the nearest integer, a tie to the
  even one.
\<close>

fun ToUint8Clamp :: "number \<Rightarrow> nat" where
  "ToUint8Clamp NaN = 0"
| "ToUint8Clamp PInf = 255"
| "ToUint8Clamp NInf = 0"
| "ToUint8Clamp (Num x) = nat (round_half_even (min 255 (max 0 x)))"

text \<open>One channel \<open>c\<close> of one pixel: lines 126 to 135, on the byte \<open>d\<close> read.\<close>

definition adjust_channel :: "platform \<Rightarrow> photometric \<Rightarrow> nat \<Rightarrow> nat \<Rightarrow> nat" where
  "adjust_channel pf ph c d =
     (let val0 = math_pow pf (rnd (real d / 255)) (pGamma ph);
          val1 = (if c = 0 then js_mul val0 (Num (rGain ph)) else val0);
          val2 = (if c = 1 then js_mul val1 (Num (gGain ph)) else val1);
          val3 = (if c = 2 then js_mul val2 (Num (bGain ph)) else val2);
          val4 = js_add (js_add (js_mul (js_sub val3 (Num 0.5)) (Num (pContrast ph))) (Num 0.5))
                   (Num (rnd (pBrightness ph / 255)))
      in ToUint8Clamp (js_min (Num 255) (js_max (Num 0) (js_mul val4 (Num 255)))))"

definition adjust_pixel :: "platform \<Rightarrow> photometric \<Rightarrow> nat \<Rightarrow> nat list \<Rightarrow> nat list" where
  "adjust_pixel pf ph i data =
     fold (\<lambda>c d. d[i + c := adjust_channel pf ph c (d ! (i + c))]) [0, 1, 2] data"

text \<open>
  The test of line 139 on the draw \<open>u\<close>: the salt-and-pepper trial fires. The bound is
  the double the source computes: a division and a subtraction, each rounded.
\<close>

definition fires :: "AugmentationParams \<Rightarrow> real \<Rightarrow> bool" where
  "fires p u = (u > rnd (1 - rnd (harshness p / 5000)))"

definition noise_pixel ::
  "AugmentationParams \<Rightarrow> nat \<Rightarrow> nat list \<Rightarrow> rng \<Rightarrow> nat list \<times> rng" where
  "noise_pixel p i data r =
     (let (u, r1) = random r
      in if fires p u
         then (let (v, r2) = random r1;
                   noiseColor = (if v > 0.5 then 255 else 0)
               in (data[i + 2 := noiseColor, i + 1 := noiseColor, i := noiseColor], r2))
         else (data, r1))"

definition pixel_step ::
  "platform \<Rightarrow> AugmentationParams \<Rightarrow> photometric \<Rightarrow> nat \<Rightarrow> nat list \<Rightarrow> rng
   \<Rightarrow> nat list \<times> rng" where
  "pixel_step pf p ph i data r = noise_pixel p i (adjust_pixel pf ph i data) r"

function pixel_loop ::
  "platform \<Rightarrow> AugmentationParams \<Rightarrow> photometric \<Rightarrow> nat \<Rightarrow> nat list \<Rightarrow> rng
   \<Rightarrow> nat list \<times> rng" where
  "pixel_loop pf p ph i data r =
     (if i < length data
      then pixel_loop pf p ph (i + 4) (fst (pixel_step pf p ph i data r))
             (snd (pixel_step pf p ph i data r))
      else (data, r))"
  by pat_completeness auto
termination
  by (relation "measure (\<lambda>(pf, p, ph, i, data, r). length data - i)")
     (auto simp: case_prod_beta pixel_step_def noise_pixel_def adjust_pixel_def Let_def)

declare pixel_loop.simps [simp del]

text \<open>
  The draws left after the noise trial of one pixel, and those left when the loop
  reaches pixel \<open>k\<close>: what the trial consumes depends on the draws alone.
\<close>

definition noise_rng :: "AugmentationParams \<Rightarrow> rng \<Rightarrow> rng" where
  "noise_rng p r = snd (noise_pixel p 0 [] r)"

definition rng_at :: "AugmentationParams \<Rightarrow> nat \<Rightarrow> rng \<Rightarrow> rng" where
  "rng_at p k r = (noise_rng p ^^ k) r"

text \<open>
  \<open>getImageData\<close> raises \<open>IndexSizeError\<close> on a rectangle of width or height zero;
  otherwise the buffer is read, adjusted in place and written back.
\<close>

definition pixel_stage ::
  "platform \<Rightarrow> AugmentationParams \<Rightarrow> canvas \<Rightarrow> rng \<Rightarrow> (error + canvas) \<times> rng" where
  "pixel_stage pf p cv r =
     (if width cv = 0 \<or> height cv = 0 then (Inl IndexSizeError, r)
      else (let data = raster pf (width cv) (height cv) (calls cv);
                (ph, r1) = photometric_draws p r;
                (data', r2) = pixel_loop pf p ph 0 data r1
            in (Inr (draw [PutImageData data' 0 0] cv), r2)))"

subsection \<open>C. Environmental overlays\<close>

definition fog_overlay :: "AugmentationParams \<Rightarrow> canvas \<Rightarrow> rng \<Rightarrow> canvas \<times> rng" where
  "fog_overlay p cv r =
     (if harshness p > 50
      then (let (u, r1) = random r
            in if u > 0.5
               then (let (v, r2) = random r1;
                         fogOpacity = (harshness p / 200) * v
                     in (draw [SetFillStyle (LinearGradient 0 0 0 (real (height cv))
                                  [(0, Rgba 200 200 200 fogOpacity),
                                   (1, Rgba 255 255 255 (fogOpacity * 0.2))]),
                               FillRect 0 0 (real (width cv)) (real (height cv))] cv, r2))
               else (cv, r1))
      else (cv, r))"

text \<open>The body of the rain loop, run \<open>n\<close> times.\<close>

fun rain_streaks :: "nat \<Rightarrow> canvas \<Rightarrow> rng \<Rightarrow> canvas \<times> rng" where
  "rain_streaks 0 cv r = (cv, r)"
| "rain_streaks (Suc n) cv r =
     (let (u1, r1) = random r;
          (u2, r2) = random r1;
          (u3, r3) = random r2;
          rx = u1 * real (width cv);
          ry = u2 * real (height cv);
          rlen = 10 + u3 * 30
      in rain_streaks n
           (draw [BeginPath, MoveTo rx ry, LineTo (rx + rlen * 0.1) (ry + rlen), Stroke] cv) r3)"

text \<open>
  \<open>for (let j = 0; j < rainCount; j++)\<close> with a fractional bound runs once for every
  integer below it: \<open>\<lceil>rainCount\<rceil>\<close> times, for the double \<open>rainCount\<close> the source
  computes (a product and a sum, each rounded).
\<close>

definition rain_overlay :: "AugmentationParams \<Rightarrow> canvas \<Rightarrow> rng \<Rightarrow> canvas \<times> rng" where
  "rain_overlay p cv r =
     (if harshness p > 70
      then (let (u, r1) = random r
            in if u > 0.6
               then (let cv1 = draw [SetStrokeStyle (Color (Rgba 255 255 255 0.2)),
                                     SetLineWidth 1] cv;
                         (v, r2) = random r1;
                         rainCount = rnd (100 + rnd (v * 200))
                     in rain_streaks (nat \<lceil>rainCount\<rceil>) cv1 r2)
               else (cv, r1))
      else (cv, r))"

definition glare_overlay :: "AugmentationParams \<Rightarrow> canvas \<Rightarrow> rng \<Rightarrow> canvas \<times> rng" where
  "glare_overlay p cv r =
     (if lightAging p > 60
      then (let (u, r1) = random r
            in if u > 0.7
               then (let (u1, r2) = random r1;
                         (u2, r3) = random r2;
                         (u3, r4) = random r3;
                         gx = u1 * real (width cv);
                         gy = u2 * real (height cv)
                     in (draw [SetFillStyle (RadialGradient gx gy 0 gx gy (u3 * real (width cv))
                                  [(0, Rgba 255 255 200 0.4), (1, Rgba 255 255 255 0)]),
                               FillRect 0 0 (real (width cv)) (real (height cv))] cv, r4))
               else (cv, r1))
      else (cv, r))"

subsection \<open>D. Dirt marks\<close>

text \<open>One mark: the eight draws of the loop body and the calls it makes.\<close>

definition dirt_mark :: "canvas \<Rightarrow> rng \<Rightarrow> ctx_call list \<times> rng" where
  "dirt_mark cv r =
     (let (u1, r1) = random r;
          (u2, r2) = random r1;
          (u3, r3) = random r2;
          (u4, r4) = random r3;
          (u5, r5) = random r4;
          (u6, r6) = random r5;
          (u7, r7) = random r6;
          (u8, r8) = random r7;
          x = u1 * real (width cv);
          y = u2 * real (height cv);
          size = 1 + u3 * (real (width cv) / 20)
      in ([SetFillStyle (Color (Rgba (u4 * 50) (u5 * 50) (u6 * 50) (u7 * 0.5))),
           BeginPath,
           (if u8 > 0.5 then Arc x y size 0 (pi * 2) else Rect x y size (size * 0.2)),
           Fill], r8))"

fun dirt_marks :: "nat \<Rightarrow> canvas \<Rightarrow> rng \<Rightarrow> canvas \<times> rng" where
  "dirt_marks 0 cv r = (cv, r)"
| "dirt_marks (Suc n) cv r =
     (let (cs, r') = dirt_mark cv r in dirt_marks n (draw cs cv) r')"

text \<open>
  Line 185: \<open>Math.floor\<close> of the double product, a division and two multiplications
  from left to right, each rounded. For a parameter that is a double and a draw in
  \<open>[0, 1)\<close> the product is finite (at most 0.3 times the parameter).
\<close>

definition dirtCount :: "AugmentationParams \<Rightarrow> real \<Rightarrow> int" where
  "dirtCount p u = \<lfloor>rnd (rnd (rnd (dirtiness p / 100) * 30) * u)\<rfloor>"

definition artifact_stage :: "AugmentationParams \<Rightarrow> canvas \<Rightarrow> rng \<Rightarrow> canvas \<times> rng" where
  "artifact_stage p cv r =
     (let (u, r1) = random r in dirt_marks (nat (dirtCount p u)) cv r1)"

subsection \<open>One sample\<close>

text \<open>A number that is a natural, printed in decimal as a template string does.\<close>

definition digit :: "nat \<Rightarrow> char" where
  "digit d = ''0123456789'' ! d"

fun string_of_nat :: "nat \<Rightarrow> string" where
  "string_of_nat n =
     (if n < 10 then [digit n] else string_of_nat (n div 10) @ [digit (n mod 10)])"

declare string_of_nat.simps [simp del]

definition file_name :: "nat \<Rightarrow> nat \<Rightarrow> string" where
  "file_name timestamp index =
     ''aug_'' @ string_of_nat timestamp @ ''_'' @ string_of_nat index @ ''.jpg''"

text \<open>
  \<open>applyAugmentation(img, p, index)\<close>; \<open>timestamp\<close> is what the clock returns at line
  197. An exception inside the promise's executor rejects the promise: \<open>Inl\<close>.
\<close>

definition applyAugmentation ::
  "platform \<Rightarrow> HTMLImageElement \<Rightarrow> AugmentationParams \<Rightarrow> nat \<Rightarrow> nat \<Rightarrow> rng
   \<Rightarrow> (error + GeneratedImage) \<times> rng" where
  "applyAugmentation pf img p index timestamp r =
     (let cv0 = \<lparr>width = img_width img, height = img_height img, calls = []\<rparr>;
          (cv1, r1) = geometric_stage img index cv0 r
      in case pixel_stage pf p cv1 r1 of
           (Inl e, r2) \<Rightarrow> (Inl e, r2)
         | (Inr cv2, r2) \<Rightarrow>
             (let (cv3, r3) = fog_overlay p cv2 r2;
                  (cv4, r4) = rain_overlay p cv3 r3;
                  (cv5, r5) = glare_overlay p cv4 r4;
                  (cv6, r6) = artifact_stage p cv5 r5;
                  (u, r7) = random r6;
                  quality = 0.5 + u * 0.4
              in (Inr \<lparr>id_n = index, dataUrl = Jpeg cv6 quality,
                       name = file_name timestamp index\<rparr>, r7)))"

subsection \<open>The batch\<close>

record app =
  sourceImage :: "string option"
  isProcessing :: bool
  results :: "GeneratedImage list"
  params :: AugmentationParams

text \<open>
  How a call of \<open>handleGenerate\<close> ends: it returns, it waits for ever on an image that
  never loads, or its promise is rejected by an exception.
\<close>

datatype outcome = Returned app | Pending app | Rejected error app

text \<open>
  The loop of lines 228 to 232; \<open>clock i\<close> is the time read while sample \<open>i\<close> is made.
  The pause of line 231 only yields to the event loop and changes no value.
\<close>

function generate_loop ::
  "platform \<Rightarrow> (nat \<Rightarrow> nat) \<Rightarrow> HTMLImageElement \<Rightarrow> AugmentationParams \<Rightarrow> nat
   \<Rightarrow> GeneratedImage list \<Rightarrow> rng \<Rightarrow> (error + GeneratedImage list) \<times> rng" where
  "generate_loop pf clock img p i newResults r =
     (if i < AUGMENTATION_COUNT
      then (case fst (applyAugmentation pf img p i (clock i) r) of
              Inl e \<Rightarrow> (Inl e, snd (applyAugmentation pf img p i (clock i) r))
            | Inr res \<Rightarrow>
                generate_loop pf clock img p (i + 1) (newResults @ [res])
                  (snd (applyAugmentation pf img p i (clock i) r)))
      else (Inr newResults, r))"
  by pat_completeness auto
termination
  by (relation "measure (\<lambda>(pf, clock, img, p, i, newResults, r). AUGMENTATION_COUNT - i)") auto

declare generate_loop.simps [simp del]

definition handleGenerate ::
  "platform \<Rightarrow> (nat \<Rightarrow> nat) \<Rightarrow> app \<Rightarrow> rng \<Rightarrow> outcome \<times> rng" where
  "handleGenerate pf clock st r =
     (case sourceImage st of
        None \<Rightarrow> (Returned st, r)
      | Some src \<Rightarrow>
          if src = [] then (Returned st, r)
          else (let st1 = st\<lparr>isProcessing := True, results := []\<rparr>
                in case decode pf src of
                     None \<Rightarrow> (Pending st1, r)
                   | Some img \<Rightarrow>
                       (case generate_loop pf clock img (params st) 0 [] r of
                          (Inl e, r') \<Rightarrow> (Rejected e st1, r')
                        | (Inr newResults, r') \<Rightarrow>
                            (Returned (st1\<lparr>results := newResults, isProcessing := False\<rparr>),
                             r'))))"

subsection \<open>Canvases that only grow\<close>

text \<open>
  \<open>grows cv cv'\<close>: \<open>cv'\<close> is \<open>cv\<close> after more drawing calls, with the same dimensions.
\<close>

definition grows :: "canvas \<Rightarrow> canvas \<Rightarrow> bool" where
  "grows cv cv' =
     (width cv' = width cv \<and> height cv' = height cv \<and> (\<exists>cs. calls cv' = calls cv @ cs))"

text \<open>An overlay applies to a canvas when it adds drawing calls to it.\<close>

definition applies ::
  "(canvas \<Rightarrow> rng \<Rightarrow> canvas \<times> rng) \<Rightarrow> canvas \<Rightarrow> rng \<Rightarrow> bool" where
  "applies overlay cv r = (calls (fst (overlay cv r)) \<noteq> calls cv)"

subsection \<open>Example inputs\<close>

text \<open>Streams of draws that repeat one value, and a small canvas.\<close>

definition const_rng :: "real \<Rightarrow> rng" where
  "const_rng u = \<lparr>draws = (\<lambda>n. u), used = 0\<rparr>"

definition cv100 :: canvas where
  "cv100 = \<lparr>width = 100, height = 50, calls = []\<rparr>"

text \<open>
  A clock, the default parameters of the application, an application state with a source
  set, a browser that decodes it to a \<open>2 \<times> 1\<close> image, and one that decodes it to an
  image of width zero; their \<open>Math.pow\<close> returns its base for the exponent 1 and the
  correctly rounded power otherwise.
\<close>

definition ex_clock :: "nat \<Rightarrow> nat" where
  "ex_clock i = 1700000000000 + i"

definition ex_params :: AugmentationParams where
  "ex_params = \<lparr>harshness = 40, lightAging = 40, dirtiness = 30\<rparr>"

definition ex_app :: app where
  "ex_app = \<lparr>sourceImage = Some ''data:image/png;base64,iVBORw0KGgo='', isProcessing = False,
              results = [], params = ex_params\<rparr>"

definition ex_pow :: "real \<Rightarrow> real \<Rightarrow> number" where
  "ex_pow x y = (if y = 1 then Num x else fl (x powr y))"

definition ex_pf :: platform where
  "ex_pf = \<lparr>decode = (\<lambda>s. Some \<lparr>img_width = 2, img_height = 1, img_src = s\<rparr>),
            raster = (\<lambda>w h cs. [10, 20, 30, 255, 0, 128, 255, 255]),
            pow = ex_pow\<rparr>"

definition zero_pf :: platform where
  "zero_pf = \<lparr>decode = (\<lambda>s. Some \<lparr>img_width = 0, img_height = 50, img_src = s\<rparr>),
              raster = (\<lambda>w h cs. []),
              pow = ex_pow\<rparr>"

definition all100 :: AugmentationParams where
  "all100 = \<lparr>harshness = 100, lightAging = 100, dirtiness = 100\<rparr>"

definition all0 :: AugmentationParams where
  "all0 = \<lparr>harshness = 0, lightAging = 0, dirtiness = 0\<rparr>"

definition mid50 :: AugmentationParams where
  "mid50 = \<lparr>harshness = 0, lightAging = 50, dirtiness = 0\<rparr>"

definition wild :: AugmentationParams where
  "wild = \<lparr>harshness = 6000, lightAging = - 50, dirtiness = 500\<rparr>"

definition edge5000 :: AugmentationParams where
  "edge5000 = \<lparr>harshness = 5000, lightAging = 0, dirtiness = 0\<rparr>"

text \<open>
  Parameters at which rounding shows: \<open>harshness = 1\<close> with the double
  \<open>1 - 1 / 5000\<close> of the source as a draw, \<open>lightAging = 1\<close> with draws of
  \<open>1 - 2^-52\<close>, and \<open>dirtiness = 96\<close>. Then a negative \<open>lightAging\<close> with draws that
  make the contrast 0 and the gamma negative, and draws that are 0.5 for the first four
  photometric parameters and 0.125 for the gains.
\<close>

definition faint :: AugmentationParams where
  "faint = \<lparr>harshness = 1, lightAging = 0, dirtiness = 0\<rparr>"

definition cut1 :: real where
  "cut1 = 2251349453722511 / 2 ^ 51"


definition dusty :: AugmentationParams where
  "dusty = \<lparr>harshness = 0, lightAging = 0, dirtiness = 96\<rparr>"

definition dark :: AugmentationParams where
  "dark = \<lparr>harshness = 0, lightAging = - 12800, dirtiness = 0\<rparr>"

definition dark_rng :: rng where
  "dark_rng = \<lparr>draws = (\<lambda>n. if n = 1 then 1 / 512 else 3 / 4), used = 0\<rparr>"

definition cast_rng :: rng where
  "cast_rng = \<lparr>draws = (\<lambda>n. if n < 4 then 1 / 2 else 1 / 8), used = 0\<rparr>"

text \<open>
  A stream whose first sixteen draws are 0.5 and the others 0.75, and parameters under
  which only the fog overlay and one dirt mark can appear.
\<close>

definition late_rng :: rng where
  "late_rng = \<lparr>draws = (\<lambda>n. if n < 16 then 1 / 2 else 3 / 4), used = 0\<rparr>"

definition foggy :: AugmentationParams where
  "foggy = \<lparr>harshness = 60, lightAging = 50, dirtiness = 5\<rparr>"

section \<open>Properties\<close>

subsection \<open>Rounding to a double\<close>

lemma pow2_powr: "pow2 e = 2 powr real_of_int e"
proof (cases "0 \<le> e")
  case True
  then obtain n where e: "e = int n" using nonneg_int_cases by blast
  show ?thesis unfolding e by (simp add: pow2_def powr_realpow)
next
  case False
  then obtain n where e: "e = - int n" and "0 < n"
    by (metis int_cases neg_int_cases not_le of_nat_0_le_iff zero_less_Suc)
  have "2 powr real_of_int (- int n) = 1 / 2 powr real n"
    by (simp add: powr_minus divide_inverse)
  then show ?thesis unfolding e using \<open>0 < n\<close> by (simp add: pow2_def powr_realpow)
qed

lemma pow2_pos [simp]: "0 < pow2 e"
  by (simp add: pow2_powr)

lemma pow2_add: "pow2 (a + b) = pow2 a * pow2 b"
  by (simp add: pow2_powr powr_add)

lemma pow2_0 [simp]: "pow2 0 = 1"
  by (simp add: pow2_def)

lemma pow2_1 [simp]: "pow2 1 = 2"
  by (simp add: pow2_def)

lemma pow2_Suc: "pow2 (e + 1) = 2 * pow2 e"
  by (simp add: pow2_add)

lemma pow2_pred: "pow2 (e - 1) = pow2 e / 2"
  using pow2_Suc [of "e - 1"] by simp

lemma pow2_le_iff [simp]: "pow2 a \<le> pow2 b \<longleftrightarrow> a \<le> b"
  by (simp add: pow2_powr)

lemma pow2_less_iff [simp]: "pow2 a < pow2 b \<longleftrightarrow> a < b"
  by (simp add: pow2_powr)

lemma pow2_nonneg_int: "0 \<le> e \<Longrightarrow> pow2 e = real_of_int (2 ^ nat e)"
  by (simp add: pow2_def)

lemma binade_bounds:
  "0 < x \<Longrightarrow> pow2 (binade x) \<le> x \<and> x < pow2 (binade x + 1)"
proof (induction x rule: binade.induct)
  case (1 x)
  show ?case
  proof (cases "2 \<le> x")
    case True
    with "1.prems" have b: "binade x = binade (x / 2) + 1"
      by (subst binade.simps) simp
    from "1.IH"(1) True "1.prems"
    have "pow2 (binade (x / 2)) \<le> x / 2 \<and> x / 2 < pow2 (binade (x / 2) + 1)" by simp
    moreover have "pow2 (binade (x / 2) + 1) = 2 * pow2 (binade (x / 2))"
      and "pow2 (binade (x / 2) + 1 + 1) = 2 * pow2 (binade (x / 2) + 1)"
      by (rule pow2_Suc)+
    ultimately show ?thesis unfolding b by linarith
  next
    case False
    show ?thesis
    proof (cases "x < 1")
      case True
      with False "1.prems" have b: "binade x = binade (x * 2) - 1"
        by (subst binade.simps) simp
      from "1.IH"(2) True False "1.prems"
      have "pow2 (binade (x * 2)) \<le> x * 2 \<and> x * 2 < pow2 (binade (x * 2) + 1)" by simp
      moreover have "pow2 (binade (x * 2) - 1) = pow2 (binade (x * 2)) / 2"
        by (rule pow2_pred)
      moreover have "pow2 (binade (x * 2) - 1 + 1) = pow2 (binade (x * 2))" by simp
      moreover have "pow2 (binade (x * 2) + 1) = 2 * pow2 (binade (x * 2))"
        by (rule pow2_Suc)
      ultimately show ?thesis unfolding b by linarith
    next
      case f: False
      with False "1.prems" have "binade x = 0" by (subst binade.simps) simp
      with f False show ?thesis by simp
    qed
  qed
qed

lemma binade_unique:
  assumes "0 < x" and "pow2 k \<le> x" and "x < pow2 (k + 1)"
  shows "binade x = k"
proof -
  from binade_bounds [OF assms(1)]
  have b: "pow2 (binade x) \<le> x" "x < pow2 (binade x + 1)" by simp_all
  from assms(2) b(2) have "pow2 k < pow2 (binade x + 1)" by linarith
  moreover from b(1) assms(3) have "pow2 (binade x) < pow2 (k + 1)" by linarith
  ultimately show ?thesis by simp
qed

lemma binade_mono:
  assumes "0 < x" and "x \<le> y"
  shows "binade x \<le> binade y"
proof -
  from assms have y: "0 < y" by simp
  from binade_bounds [OF assms(1)] binade_bounds [OF y] assms(2)
  have "pow2 (binade x) < pow2 (binade y + 1)" by linarith
  then show ?thesis by simp
qed

lemma rhe_of_int [simp]: "round_half_even (real_of_int n) = n"
  by (simp add: round_half_even_def)

lemma rhe_err: "\<bar>real_of_int (round_half_even x) - x\<bar> \<le> 1 / 2"
  unfolding round_half_even_def Let_def by (auto; linarith)

lemma rhe_mono:
  assumes "x \<le> y"
  shows "round_half_even x \<le> round_half_even y"
proof -
  from assms have f: "\<lfloor>x\<rfloor> \<le> \<lfloor>y\<rfloor>" by (rule floor_mono)
  show ?thesis
  proof (cases "\<lfloor>x\<rfloor> = \<lfloor>y\<rfloor>")
    case True
    with assms show ?thesis unfolding round_half_even_def Let_def by auto
  next
    case False
    with f have "\<lfloor>x\<rfloor> + 1 \<le> \<lfloor>y\<rfloor>" by simp
    moreover have "round_half_even x \<le> \<lfloor>x\<rfloor> + 1"
      unfolding round_half_even_def Let_def by auto
    moreover have "\<lfloor>y\<rfloor> \<le> round_half_even y"
      unfolding round_half_even_def Let_def by auto
    ultimately show ?thesis by linarith
  qed
qed

lemma rhe_minus: "round_half_even (- x) = - round_half_even x"
proof (cases "x = real_of_int \<lfloor>x\<rfloor>")
  case True
  then obtain n where "x = real_of_int n" ..
  then show ?thesis
    by (metis of_int_minus rhe_of_int)
next
  case False
  define f where "f = \<lfloor>x\<rfloor>"
  from False have lt: "real_of_int f < x" unfolding f_def by linarith
  have ub: "x < real_of_int f + 1" unfolding f_def by linarith
  have fm: "\<lfloor>- x\<rfloor> = - f - 1"
  proof (rule floor_unique)
    show "real_of_int (- f - 1) \<le> - x" using ub by simp
    show "- x < real_of_int (- f - 1) + 1" using lt by simp
  qed
  have "round_half_even (- x) =
      (if real_of_int (- f - 1) + 1 / 2 < - x then - f - 1 + 1
       else if - x < real_of_int (- f - 1) + 1 / 2 then - f - 1
       else if even (- f - 1) then - f - 1 else - f - 1 + 1)"
    unfolding round_half_even_def Let_def fm ..
  moreover have "round_half_even x =
      (if real_of_int f + 1 / 2 < x then f + 1
       else if x < real_of_int f + 1 / 2 then f
       else if even f then f else f + 1)"
    unfolding round_half_even_def Let_def f_def ..
  ultimately show ?thesis by auto
qed

lemma ulp_pos [simp]: "0 < ulp x"
  by (simp add: ulp_def)

lemma ulp_nonneg [simp]: "0 \<le> ulp x"
  using ulp_pos [of x] by linarith

lemma ulp_nonzero [simp]: "ulp x \<noteq> 0"
  using ulp_pos [of x] by linarith

lemma rhe_0 [simp]: "round_half_even 0 = 0"
  using rhe_of_int [of 0] by simp

lemma pow2_nonneg [simp]: "0 \<le> pow2 e"
  using pow2_pos [of e] by linarith

lemma pow2_nonzero [simp]: "pow2 e \<noteq> 0"
  using pow2_pos [of e] by linarith

lemma abs_pow2 [simp]: "\<bar>pow2 e\<bar> = pow2 e"
  by (simp add: abs_of_pos)

lemma ulp_minus [simp]: "ulp (- x) = ulp x"
  by (simp add: ulp_def)

lemma rnd_0 [simp]: "rnd 0 = 0"
  by (simp add: rnd_def)

lemma rnd_minus: "rnd (- x) = - rnd x"
  by (simp add: rnd_def rhe_minus)

lemma rnd_err: "\<bar>rnd x - x\<bar> \<le> ulp x / 2"
proof -
  have "\<bar>rnd x - x\<bar> = \<bar>real_of_int (round_half_even (x / ulp x)) - x / ulp x\<bar> * ulp x"
  proof -
    have "rnd x - x = (real_of_int (round_half_even (x / ulp x)) - x / ulp x) * ulp x"
      by (simp add: rnd_def field_simps)
    then show ?thesis by (simp add: abs_mult)
  qed
  also have "\<dots> \<le> 1 / 2 * ulp x"
    by (intro mult_right_mono rhe_err) simp
  finally show ?thesis by simp
qed

lemma rnd_le_grid:
  assumes "x \<le> real_of_int n * ulp x"
  shows "rnd x \<le> real_of_int n * ulp x"
proof -
  from assms have "x / ulp x \<le> real_of_int n" by (simp add: field_simps)
  then have "round_half_even (x / ulp x) \<le> round_half_even (real_of_int n)"
    by (rule rhe_mono)
  then have "real_of_int (round_half_even (x / ulp x)) \<le> real_of_int n" by simp
  then show ?thesis unfolding rnd_def by (intro mult_right_mono) simp_all
qed

lemma rnd_ge_grid:
  assumes "real_of_int n * ulp x \<le> x"
  shows "real_of_int n * ulp x \<le> rnd x"
proof -
  from assms have "real_of_int n \<le> x / ulp x" by (simp add: field_simps)
  then have "round_half_even (real_of_int n) \<le> round_half_even (x / ulp x)"
    by (rule rhe_mono)
  then have "real_of_int n \<le> real_of_int (round_half_even (x / ulp x))" by simp
  then show ?thesis unfolding rnd_def by (intro mult_right_mono) simp_all
qed

lemma rnd_nonneg: "0 \<le> x \<Longrightarrow> 0 \<le> rnd x"
  using rnd_ge_grid [of 0 x] by simp

lemma rnd_nonpos: "x \<le> 0 \<Longrightarrow> rnd x \<le> 0"
  using rnd_le_grid [of x 0] by simp

text \<open>A power of two that is a multiple of the unit in the last place of \<open>x\<close>.\<close>

lemma pow2_grid:
  assumes "max (binade \<bar>x\<bar>) (- 1022) - 52 \<le> m"
  shows "pow2 m = real_of_int (2 ^ nat (m - (max (binade \<bar>x\<bar>) (- 1022) - 52))) * ulp x"
proof -
  let ?e = "max (binade \<bar>x\<bar>) (- 1022) - 52"
  have "pow2 m = pow2 ((m - ?e) + ?e)" by simp
  also have "\<dots> = pow2 (m - ?e) * pow2 ?e" by (rule pow2_add)
  also have "pow2 (m - ?e) = real_of_int (2 ^ nat (m - ?e))"
    using assms by (intro pow2_nonneg_int) simp
  finally show ?thesis by (simp add: ulp_def)
qed

lemma rnd_le_pow2:
  assumes "x \<le> pow2 m" and "max (binade \<bar>x\<bar>) (- 1022) - 52 \<le> m"
  shows "rnd x \<le> pow2 m"
  using rnd_le_grid [of x "2 ^ nat (m - (max (binade \<bar>x\<bar>) (- 1022) - 52))"]
    assms(1) pow2_grid [OF assms(2)] by simp

lemma rnd_ge_pow2:
  assumes "pow2 m \<le> x" and "max (binade \<bar>x\<bar>) (- 1022) - 52 \<le> m"
  shows "pow2 m \<le> rnd x"
  using rnd_ge_grid [of "2 ^ nat (m - (max (binade \<bar>x\<bar>) (- 1022) - 52))" x]
    assms(1) pow2_grid [OF assms(2)] by simp

lemma rnd_mono_pos:
  assumes "0 < x" and "x \<le> y"
  shows "rnd x \<le> rnd y"
proof -
  from assms have y: "0 < y" by simp
  let ?ex = "max (binade \<bar>x\<bar>) (- 1022)"
  let ?ey = "max (binade \<bar>y\<bar>) (- 1022)"
  have bm: "binade \<bar>x\<bar> \<le> binade \<bar>y\<bar>"
    using binade_mono [of "\<bar>x\<bar>" "\<bar>y\<bar>"] assms by simp
  then have le: "?ex \<le> ?ey" by simp
  show ?thesis
  proof (cases "?ex = ?ey")
    case True
    then have u: "ulp x = ulp y" by (simp add: ulp_def)
    have "x / ulp y \<le> y / ulp y" using assms(2) by (simp add: divide_right_mono)
    then have "round_half_even (x / ulp y) \<le> round_half_even (y / ulp y)" by (rule rhe_mono)
    then show ?thesis unfolding rnd_def u by (intro mult_right_mono) simp_all
  next
    case False
    with le have lt: "?ex < ?ey" by linarith
    then have ey: "?ey = binade \<bar>y\<bar>" by linarith
    from lt have bx: "binade \<bar>x\<bar> + 1 \<le> ?ey" by linarith
    from binade_bounds [of "\<bar>x\<bar>"] assms(1) have "x < pow2 (binade \<bar>x\<bar> + 1)" by simp
    also have "\<dots> \<le> pow2 ?ey" using bx by simp
    finally have "x \<le> pow2 ?ey" by simp
    moreover have "?ex - 52 \<le> ?ey" using lt by linarith
    ultimately have a: "rnd x \<le> pow2 ?ey" by (rule rnd_le_pow2)
    from binade_bounds [of "\<bar>y\<bar>"] y have "pow2 ?ey \<le> y" unfolding ey by simp
    moreover have "?ey - 52 \<le> ?ey" by simp
    ultimately have "pow2 ?ey \<le> rnd y" by (rule rnd_ge_pow2)
    with a show ?thesis by simp
  qed
qed

lemma rnd_mono:
  assumes "x \<le> y"
  shows "rnd x \<le> rnd y"
proof -
  consider "0 < x" | "x \<le> 0" "0 \<le> y" | "y < 0" by linarith
  then show ?thesis
  proof cases
    case 1
    then show ?thesis using assms by (rule rnd_mono_pos)
  next
    case 2
    then show ?thesis using rnd_nonpos [of x] rnd_nonneg [of y] by simp
  next
    case 3
    then have "0 < - y" "- y \<le> - x" using assms by simp_all
    then have "rnd (- y) \<le> rnd (- x)" by (rule rnd_mono_pos)
    then show ?thesis by (simp add: rnd_minus)
  qed
qed

lemma rnd_exact:
  assumes n: "\<bar>n\<bar> < 2 ^ 53" and k: "- 1074 \<le> k"
  shows "rnd (real_of_int n * pow2 k) = real_of_int n * pow2 k"
proof (cases "n = 0")
  case True
  then show ?thesis by simp
next
  case False
  let ?x = "real_of_int n * pow2 k"
  let ?e = "max (binade \<bar>?x\<bar>) (- 1022)"
  have ax: "\<bar>?x\<bar> = real_of_int \<bar>n\<bar> * pow2 k" by (simp add: abs_mult)
  have pos: "0 < \<bar>?x\<bar>" using False by simp
  have "real_of_int \<bar>n\<bar> < real_of_int (2 ^ 53)" using n by (simp only: of_int_less_iff)
  then have "real_of_int \<bar>n\<bar> < 2 ^ 53" by simp
  then have "\<bar>?x\<bar> < 2 ^ 53 * pow2 k" unfolding ax by (intro mult_strict_right_mono) simp_all
  also have "\<dots> = pow2 (53 + k)"
  proof -
    have "pow2 53 = 2 ^ 53" by (simp add: pow2_def)
    then show ?thesis by (simp only: pow2_add)
  qed
  finally have "pow2 (binade \<bar>?x\<bar>) < pow2 (53 + k)"
    using binade_bounds [OF pos] by linarith
  then have "binade \<bar>?x\<bar> \<le> 52 + k" by simp
  then have j: "0 \<le> k - (?e - 52)" using k by simp
  have "pow2 k = pow2 ((k - (?e - 52)) + (?e - 52))" by simp
  also have "\<dots> = pow2 (k - (?e - 52)) * pow2 (?e - 52)" by (rule pow2_add)
  also have "pow2 (k - (?e - 52)) = real_of_int (2 ^ nat (k - (?e - 52)))"
    using j by (rule pow2_nonneg_int)
  finally have pk: "pow2 k = real_of_int (2 ^ nat (k - (?e - 52))) * ulp ?x"
    by (simp add: ulp_def)
  have "?x / ulp ?x = real_of_int (n * 2 ^ nat (k - (?e - 52)))"
    by (subst pk) simp
  then have "round_half_even (?x / ulp ?x) = n * 2 ^ nat (k - (?e - 52))"
    by (simp only: rhe_of_int)
  then have "rnd ?x = real_of_int (n * 2 ^ nat (k - (?e - 52))) * ulp ?x"
    by (simp only: rnd_def)
  also have "\<dots> = ?x" by (subst (2) pk) simp
  finally show ?thesis .
qed

lemma rnd_form:
  "\<exists>n. \<bar>n\<bar> \<le> 2 ^ 53 \<and>
       rnd x = real_of_int n * pow2 (max (binade \<bar>x\<bar>) (- 1022) - 52)"
proof (cases "x = 0")
  case True
  then show ?thesis by (intro exI [of _ 0]) simp
next
  case False
  let ?e = "max (binade \<bar>x\<bar>) (- 1022)"
  from False have pos: "0 < \<bar>x\<bar>" by simp
  have "\<bar>x\<bar> < pow2 (binade \<bar>x\<bar> + 1)" using binade_bounds [OF pos] by simp
  also have "\<dots> \<le> pow2 (?e + 1)" by simp
  finally have ax: "\<bar>x\<bar> \<le> pow2 (?e + 1)" by simp
  have grid: "pow2 (?e + 1) = real_of_int (2 ^ 53) * ulp x"
  proof -
    have "pow2 (?e + 1) = pow2 (53 + (?e - 52))"
      by (rule arg_cong [of _ _ pow2]) simp
    also have "\<dots> = pow2 53 * pow2 (?e - 52)" by (rule pow2_add)
    also have "pow2 53 = real_of_int (2 ^ 53)" by (simp add: pow2_def)
    finally show ?thesis by (simp add: ulp_def)
  qed
  have up: "rnd x \<le> real_of_int (2 ^ 53) * ulp x"
    using ax grid by (intro rnd_le_grid) linarith
  have "real_of_int (- (2 ^ 53)) * ulp x \<le> x" using ax grid by simp
  then have lo: "real_of_int (- (2 ^ 53)) * ulp x \<le> rnd x" by (rule rnd_ge_grid)
  let ?n = "round_half_even (x / ulp x)"
  have r: "rnd x = real_of_int ?n * ulp x" by (simp add: rnd_def)
  from up have "real_of_int ?n \<le> real_of_int (2 ^ 53)"
    unfolding r by (simp only: mult_le_cancel_right_pos [OF ulp_pos])
  moreover from lo have "real_of_int (- (2 ^ 53)) \<le> real_of_int ?n"
    unfolding r by (simp only: mult_le_cancel_right_pos [OF ulp_pos])
  ultimately have "?n \<le> 2 ^ 53" and "- (2 ^ 53) \<le> ?n" by (simp_all only: of_int_le_iff)
  then have "\<bar>?n\<bar> \<le> 2 ^ 53" by linarith
  with r show ?thesis unfolding ulp_def by blast
qed

lemma rnd_idem [simp]: "rnd (rnd x) = rnd x"
proof -
  let ?e = "max (binade \<bar>x\<bar>) (- 1022)"
  from rnd_form [of x] obtain n where n: "\<bar>n\<bar> \<le> 2 ^ 53"
    and r: "rnd x = real_of_int n * pow2 (?e - 52)" by blast
  show ?thesis
  proof (cases "\<bar>n\<bar> < 2 ^ 53")
    case True
    have "- 1074 \<le> ?e - 52" by simp
    from rnd_exact [OF True this] show ?thesis unfolding r .
  next
    case False
    with n have "n = 2 ^ 53 \<or> n = - (2 ^ 53)" by linarith
    moreover have p: "real_of_int (2 ^ 53) * pow2 (?e - 52) = real_of_int 1 * pow2 (?e + 1)"
    proof -
      have "pow2 (?e + 1) = pow2 (53 + (?e - 52))"
      by (rule arg_cong [of _ _ pow2]) simp
      also have "\<dots> = pow2 53 * pow2 (?e - 52)" by (rule pow2_add)
      also have "pow2 53 = real_of_int (2 ^ 53)" by (simp add: pow2_def)
      finally show ?thesis by simp
    qed
    ultimately have "rnd x = real_of_int 1 * pow2 (?e + 1) \<or>
        rnd x = real_of_int (- 1) * pow2 (?e + 1)"
      unfolding r by auto
    moreover have "rnd (real_of_int 1 * pow2 (?e + 1)) = real_of_int 1 * pow2 (?e + 1)"
      by (rule rnd_exact) simp_all
    moreover have "rnd (real_of_int (- 1) * pow2 (?e + 1)) = real_of_int (- 1) * pow2 (?e + 1)"
      by (rule rnd_exact) simp_all
    ultimately show ?thesis by metis
  qed
qed

lemma rnd_1 [simp]: "rnd 1 = 1"
  using rnd_exact [of 1 0] by simp

lemma rnd_half [simp]: "rnd (1 / 2) = 1 / 2"
  using rnd_exact [of 1 "- 1"] by (simp add: pow2_def)

lemma rnd_err_unit:
  assumes "\<bar>x\<bar> \<le> 1"
  shows "\<bar>rnd x - x\<bar> \<le> 1 / 2 ^ 54"
proof -
  consider "x = 0" | "\<bar>x\<bar> = 1" | "0 < \<bar>x\<bar>" "\<bar>x\<bar> < 1" using assms by linarith
  then show ?thesis
  proof cases
    case 1
    then show ?thesis by simp
  next
    case 2
    then have "x = 1 \<or> x = - 1" by linarith
    then show ?thesis using rnd_minus [of 1] by auto
  next
    case 3
    from binade_bounds [OF 3(1)] 3(2) have "pow2 (binade \<bar>x\<bar>) < pow2 0" by simp
    then have "binade \<bar>x\<bar> < 0" by (simp only: pow2_less_iff)
    then have "binade \<bar>x\<bar> \<le> - 1" by simp
    then have "max (binade \<bar>x\<bar>) (- 1022) - 52 \<le> - 53" by simp
    then have "ulp x \<le> pow2 (- 53)" unfolding ulp_def by (simp only: pow2_le_iff)
    then have "ulp x / 2 \<le> 1 / 2 ^ 54" by (simp add: pow2_def)
    with rnd_err [of x] show ?thesis by linarith
  qed
qed

text \<open>A double between two consecutive powers of two is a multiple of its unit.\<close>

lemma double_on_grid:
  assumes "rnd x = x" and "pow2 b \<le> x" and "x < pow2 (b + 1)" and "- 1022 \<le> b"
  shows "\<exists>n. x = real_of_int n * pow2 (b - 52)"
proof -
  have pos: "0 < x" using assms(2) pow2_pos [of b] by linarith
  then have "binade \<bar>x\<bar> = b" using assms(2,3) by (intro binade_unique) simp_all
  then have "ulp x = pow2 (b - 52)" using assms(4) by (simp add: ulp_def)
  with assms(1) show ?thesis unfolding rnd_def by metis
qed

lemma double_below_1:
  assumes "rnd u = u" and "u < 1"
  shows "u \<le> 1 - 1 / 2 ^ 53"
proof (cases "u < 1 / 2")
  case True
  then show ?thesis by simp
next
  case False
  then have "pow2 (- 1) \<le> u" "u < pow2 (- 1 + 1)" using assms(2) by (simp_all add: pow2_def)
  from double_on_grid [OF assms(1) this] obtain n where n: "u = real_of_int n * pow2 (- 1 - 52)"
    by auto
  then have u: "u = real_of_int n / 2 ^ 53" by (simp add: pow2_def)
  with assms(2) have "real_of_int n < real_of_int (2 ^ 53)" by simp
  then have "n < 2 ^ 53" by (simp only: of_int_less_iff)
  then have "n \<le> 2 ^ 53 - 1" by simp
  then have "real_of_int n \<le> real_of_int (2 ^ 53 - 1)" by (simp only: of_int_le_iff)
  then show ?thesis unfolding u by (simp add: field_simps)
qed

lemma double_above_5000:
  assumes "rnd h = h" and "5000 < h"
  shows "5000 + 1 / 2 ^ 40 \<le> h"
proof (cases "h < 8192")
  case False
  then show ?thesis by simp
next
  case True
  have "pow2 12 \<le> h" "h < pow2 (12 + 1)" using assms(2) True by (simp_all add: pow2_def)
  from double_on_grid [OF assms(1) this] obtain n where n: "h = real_of_int n * pow2 (12 - 52)"
    by auto
  then have h: "h = real_of_int n / 2 ^ 40" by (simp add: pow2_def)
  with assms(2) have "real_of_int (5000 * 2 ^ 40) < real_of_int n" by (simp add: field_simps)
  then have "5000 * 2 ^ 40 < n" by (simp only: of_int_less_iff)
  then have "5000 * 2 ^ 40 + 1 \<le> n" by simp
  then have "real_of_int (5000 * 2 ^ 40 + 1) \<le> real_of_int n" by (simp only: of_int_le_iff)
  then show ?thesis unfolding h by (simp add: field_simps)
qed

lemma rnd_err_pow2:
  assumes "\<bar>x\<bar> \<le> pow2 e" and "- 1021 \<le> e"
  shows "\<bar>rnd x - x\<bar> \<le> pow2 (e - 54)"
proof -
  consider "x = 0" | "\<bar>x\<bar> = pow2 e" | "0 < \<bar>x\<bar>" "\<bar>x\<bar> < pow2 e"
    using assms(1) by linarith
  then show ?thesis
  proof cases
    case 1
    then show ?thesis by simp
  next
    case 2
    then have "x = 1 * pow2 e \<or> x = (- 1) * pow2 e" by (auto simp: abs_if split: if_splits)
    then have "rnd x = x" using rnd_exact [of 1 e] rnd_exact [of "- 1" e] assms(2) by auto
    then show ?thesis by simp
  next
    case 3
    from binade_bounds [OF 3(1)] have "pow2 (binade \<bar>x\<bar>) \<le> \<bar>x\<bar>" by blast
    with 3(2) have "pow2 (binade \<bar>x\<bar>) < pow2 e" by linarith
    then have "binade \<bar>x\<bar> < e" by (simp only: pow2_less_iff)
    then have "max (binade \<bar>x\<bar>) (- 1022) - 52 \<le> e - 53" using assms(2) by linarith
    then have "ulp x \<le> pow2 (e - 53)" unfolding ulp_def by (simp only: pow2_le_iff)
    moreover have "pow2 (e - 53) / 2 = pow2 (e - 54)" using pow2_pred [of "e - 53"] by simp
    ultimately show ?thesis using rnd_err [of x] by linarith
  qed
qed


lemmas rnd_eval = rnd_def ulp_def pow2_def binade.simps round_half_even_def

subsection \<open>Draws\<close>

lemma fst_random: "fst (random r) = draws r 0"
  by (simp add: random_def)

lemma draws_random: "draws (snd (random r)) = (\<lambda>n. draws r (Suc n))"
  by (simp add: random_def)

lemma used_random: "used (snd (random r)) = Suc (used r)"
  by (simp add: random_def)

lemma unit_draws_random: "unit_draws r \<Longrightarrow> unit_draws (snd (random r))"
  by (simp add: unit_draws_def random_def)

subsection \<open>The example inputs\<close>

lemma ex_app_source:
  "sourceImage ex_app = Some ''data:image/png;base64,iVBORw0KGgo=''"
  by (simp add: ex_app_def)

lemma zero_pf_decode:
  "decode zero_pf src = Some \<lparr>img_width = 0, img_height = 50, img_src = src\<rparr>"
  by (simp add: zero_pf_def)

subsection \<open>Stages append calls and keep the dimensions\<close>

lemma grows_refl: "grows cv cv"
  by (simp add: grows_def)

lemma grows_trans: "grows a b \<Longrightarrow> grows b c \<Longrightarrow> grows a c"
  by (auto simp: grows_def)

lemma grows_draw: "grows cv (draw cs cv)"
  by (simp add: grows_def draw_def)

lemma width_draw: "width (draw cs cv) = width cv"
  and height_draw: "height (draw cs cv) = height cv"
  and calls_draw: "calls (draw cs cv) = calls cv @ cs"
  by (simp_all add: draw_def)

lemma grows_geometric: "grows cv (fst (geometric_stage img index cv r))"
  by (simp add: geometric_stage_def geometric_paint_def split_def Let_def grows_draw)

lemma used_geometric: "used (snd (geometric_stage img index cv r)) = used r + 7"
  by (simp add: geometric_stage_def geometric_draws_def split_def Let_def random_def)

lemma grows_fog: "grows cv (fst (fog_overlay p cv r))"
  by (simp add: fog_overlay_def split_def Let_def grows_draw grows_refl)

lemma grows_rain_streaks: "grows cv (fst (rain_streaks n cv r))"
proof (induction n arbitrary: cv r)
  case 0
  show ?case by (simp add: grows_refl)
next
  case (Suc n)
  show ?case
    by (simp add: split_def Let_def) (rule grows_trans [OF grows_draw Suc.IH])
qed

lemma grows_rain: "grows cv (fst (rain_overlay p cv r))"
  by (auto simp: rain_overlay_def split_def Let_def grows_refl
           intro: grows_trans [OF grows_draw grows_rain_streaks])

lemma grows_glare: "grows cv (fst (glare_overlay p cv r))"
  by (simp add: glare_overlay_def split_def Let_def grows_draw grows_refl)

lemma grows_dirt_marks: "grows cv (fst (dirt_marks n cv r))"
proof (induction n arbitrary: cv r)
  case 0
  show ?case by (simp add: grows_refl)
next
  case (Suc n)
  show ?case
    by (simp add: split_def Let_def) (rule grows_trans [OF grows_draw Suc.IH])
qed

lemma grows_artifact: "grows cv (fst (artifact_stage p cv r))"
  by (simp add: artifact_stage_def split_def Let_def grows_dirt_marks)

lemma pixel_stage_zero:
  "width cv = 0 \<or> height cv = 0 \<Longrightarrow> pixel_stage pf p cv r = (Inl IndexSizeError, r)"
  by (simp add: pixel_stage_def)

lemma pixel_stage_pos:
  "0 < width cv \<Longrightarrow> 0 < height cv \<Longrightarrow>
   \<exists>cv'. fst (pixel_stage pf p cv r) = Inr cv' \<and> grows cv cv'"
  by (simp add: pixel_stage_def split_def Let_def grows_draw)

lemma applyAugmentation_Inl:
  assumes "geometric_stage img index
             \<lparr>width = img_width img, height = img_height img, calls = []\<rparr> r = (cv1, r1)"
    and "pixel_stage pf p cv1 r1 = (Inl e, r2)"
  shows "applyAugmentation pf img p index ts r = (Inl e, r2)"
  using assms by (simp add: applyAugmentation_def)

lemma applyAugmentation_Inr:
  assumes "geometric_stage img index
             \<lparr>width = img_width img, height = img_height img, calls = []\<rparr> r = (cv1, r1)"
    and "pixel_stage pf p cv1 r1 = (Inr cv2, r2)"
    and "fog_overlay p cv2 r2 = (cv3, r3)"
    and "rain_overlay p cv3 r3 = (cv4, r4)"
    and "glare_overlay p cv4 r4 = (cv5, r5)"
    and "artifact_stage p cv5 r5 = (cv6, r6)"
  shows "applyAugmentation pf img p index ts r =
           (Inr \<lparr>id_n = index, dataUrl = Jpeg cv6 (0.5 + draws r6 0 * 0.4),
                 name = file_name ts index\<rparr>, snd (random r6))"
  using assms by (simp add: applyAugmentation_def random_def)

lemma applyAugmentation_zero:
  assumes "img_width img = 0 \<or> img_height img = 0"
  shows "fst (applyAugmentation pf img p index ts r) = Inl IndexSizeError \<and>
         used (snd (applyAugmentation pf img p index ts r)) = used r + 7"
proof -
  let ?cv0 = "\<lparr>width = img_width img, height = img_height img, calls = []\<rparr>"
  obtain cv1 r1 where g: "geometric_stage img index ?cv0 r = (cv1, r1)"
    by (cases "geometric_stage img index ?cv0 r")
  have "grows ?cv0 cv1" using grows_geometric [of ?cv0 img index r] g by simp
  then have "width cv1 = 0 \<or> height cv1 = 0"
    using assms by (auto simp: grows_def)
  then have ps: "pixel_stage pf p cv1 r1 = (Inl IndexSizeError, r1)"
    by (rule pixel_stage_zero)
  have "used r1 = used r + 7" using used_geometric [of img index ?cv0 r] g by simp
  then show ?thesis by (simp add: applyAugmentation_Inl [OF g ps])
qed

lemma applyAugmentation_pos:
  assumes "0 < img_width img" and "0 < img_height img"
  shows "\<exists>cv q. fst (applyAugmentation pf img p index ts r) =
           Inr \<lparr>id_n = index, dataUrl = Jpeg cv q, name = file_name ts index\<rparr> \<and>
           grows (fst (geometric_stage img index
                    \<lparr>width = img_width img, height = img_height img, calls = []\<rparr> r)) cv"
proof -
  let ?cv0 = "\<lparr>width = img_width img, height = img_height img, calls = []\<rparr>"
  obtain cv1 r1 where g: "geometric_stage img index ?cv0 r = (cv1, r1)"
    by (cases "geometric_stage img index ?cv0 r")
  have "grows ?cv0 cv1" using grows_geometric [of ?cv0 img index r] g by simp
  then have "0 < width cv1" "0 < height cv1"
    using assms by (auto simp: grows_def)
  then obtain cv2 where cv2: "fst (pixel_stage pf p cv1 r1) = Inr cv2"
    and g2: "grows cv1 cv2"
    using pixel_stage_pos by blast
  obtain r2 where ps: "pixel_stage pf p cv1 r1 = (Inr cv2, r2)"
    using cv2 by (cases "pixel_stage pf p cv1 r1") simp
  obtain cv3 r3 where f: "fog_overlay p cv2 r2 = (cv3, r3)"
    by (cases "fog_overlay p cv2 r2")
  obtain cv4 r4 where rn: "rain_overlay p cv3 r3 = (cv4, r4)"
    by (cases "rain_overlay p cv3 r3")
  obtain cv5 r5 where gl: "glare_overlay p cv4 r4 = (cv5, r5)"
    by (cases "glare_overlay p cv4 r4")
  obtain cv6 r6 where a: "artifact_stage p cv5 r5 = (cv6, r6)"
    by (cases "artifact_stage p cv5 r5")
  have "grows cv2 cv3" using grows_fog [of cv2 p r2] f by simp
  moreover have "grows cv3 cv4" using grows_rain [of cv3 p r3] rn by simp
  moreover have "grows cv4 cv5" using grows_glare [of cv4 p r4] gl by simp
  moreover have "grows cv5 cv6" using grows_artifact [of cv5 p r5] a by simp
  ultimately have "grows cv1 cv6" using g2 by (blast intro: grows_trans)
  then show ?thesis
    by (simp add: applyAugmentation_Inr [OF g ps f rn gl a] g)
qed


subsection \<open>The batch loop\<close>

lemma generate_loop_all:
  shows "\<forall>i r. \<exists>g. fst (applyAugmentation pf img p i (clock i) r) = Inr g \<and> Q i g \<Longrightarrow>
         i \<le> AUGMENTATION_COUNT \<Longrightarrow>
         \<exists>res r'. generate_loop pf clock img p i acc r = (Inr res, r') \<and>
           length res = length acc + (AUGMENTATION_COUNT - i) \<and>
           take (length acc) res = acc \<and>
           (\<forall>k. i \<le> k \<and> k < AUGMENTATION_COUNT \<longrightarrow> Q k (res ! (length acc + (k - i))))"
proof (induction pf clock img p i acc r rule: generate_loop.induct)
  case (1 pf clock img p i newResults r)
  show ?case
  proof (cases "i < AUGMENTATION_COUNT")
    case False
    with "1.prems" have "i = AUGMENTATION_COUNT" by simp
    then show ?thesis by (auto simp: generate_loop.simps)
  next
    case True
    note ok = "1.prems"(1)
    from ok obtain g where g: "fst (applyAugmentation pf img p i (clock i) r) = Inr g"
      and q: "Q i g" by blast
    let ?r = "snd (applyAugmentation pf img p i (clock i) r)"
    from "1.IH" [OF True g ok] True
    obtain res r' where
      loop: "generate_loop pf clock img p (i + 1) (newResults @ [g]) ?r = (Inr res, r')"
      and len: "length res = length (newResults @ [g]) + (AUGMENTATION_COUNT - (i + 1))"
      and tk: "take (length (newResults @ [g])) res = newResults @ [g]"
      and rest: "\<forall>k. i + 1 \<le> k \<and> k < AUGMENTATION_COUNT \<longrightarrow>
                   Q k (res ! (length (newResults @ [g]) + (k - (i + 1))))"
      by auto
    have eq: "generate_loop pf clock img p i newResults r = (Inr res, r')"
      using True g loop by (subst generate_loop.simps) simp
    have len': "length res = length newResults + (AUGMENTATION_COUNT - i)"
      using len True by simp
    obtain tl where res: "res = newResults @ g # tl"
      using append_take_drop_id [of "length (newResults @ [g])" res] tk by (metis append.assoc append_Cons append_Nil)
    have tk': "take (length newResults) res = newResults"
      by (simp add: res)
    have at_i: "res ! length newResults = g"
      by (simp add: res)
    have all: "Q k (res ! (length newResults + (k - i)))"
      if k: "i \<le> k \<and> k < AUGMENTATION_COUNT" for k
    proof (cases "k = i")
      case True
      then show ?thesis using q at_i by simp
    next
      case False
      with k have k': "i + 1 \<le> k \<and> k < AUGMENTATION_COUNT" by simp
      then obtain j where kj: "k = i + 1 + j" using le_Suc_ex by blast
      from rest k' have "Q k (res ! (length (newResults @ [g]) + (k - (i + 1))))" by blast
      then show ?thesis by (simp add: kj)
    qed
    show ?thesis using eq len' tk' all by blast
  qed
qed

lemma generate_loop_zero:
  assumes "img_width img = 0 \<or> img_height img = 0"
  shows "\<exists>r'. generate_loop pf clock img p 0 [] r = (Inl IndexSizeError, r') \<and>
           used r' = used r + 7"
  using applyAugmentation_zero [OF assms, of pf p 0 "clock 0" r]
  by (subst generate_loop.simps) (simp add: AUGMENTATION_COUNT_def)

subsection \<open>One sample and one batch\<close>

lemma length_pixel_loop: "length (fst (pixel_loop pf p ph i data r)) = length data"
proof (induction pf p ph i data r rule: pixel_loop.induct)
  case (1 pf p ph i data r)
  have step: "length (fst (pixel_step pf p ph i data r)) = length data"
    by (simp add: pixel_step_def noise_pixel_def adjust_pixel_def Let_def split_def)
  show ?case
  proof (cases "i < length data")
    case True
    with "1.IH" step show ?thesis by (subst pixel_loop.simps) simp
  next
    case False
    then show ?thesis by (subst pixel_loop.simps) simp
  qed
qed

lemma applyAugmentation_sample:
  assumes "fst (applyAugmentation pf img p index ts r) = Inr g"
  shows "\<exists>cv q. g = \<lparr>id_n = index, dataUrl = Jpeg cv q, name = file_name ts index\<rparr> \<and>
           width cv = img_width img \<and> height cv = img_height img \<and>
           0 < img_width img \<and> 0 < img_height img"
proof (cases "img_width img = 0 \<or> img_height img = 0")
  case True
  from applyAugmentation_zero [OF True, of pf p index ts r] assms show ?thesis by simp
next
  case False
  then have pos: "0 < img_width img" "0 < img_height img" by simp_all
  from applyAugmentation_pos [OF pos, of pf p index ts r] assms
  obtain cv q where g: "g = \<lparr>id_n = index, dataUrl = Jpeg cv q, name = file_name ts index\<rparr>"
    and gr: "grows (fst (geometric_stage img index
                    \<lparr>width = img_width img, height = img_height img, calls = []\<rparr> r)) cv"
    by auto
  from grows_trans [OF grows_geometric gr]
  have "width cv = img_width img \<and> height cv = img_height img"
    by (simp add: grows_def)
  with g pos show ?thesis by blast
qed

lemma handleGenerate_valid:
  assumes src: "sourceImage st = Some src" "src \<noteq> []" "decode pf src = Some img"
    and pos: "0 < img_width img" "0 < img_height img"
  shows "\<exists>st' r'. handleGenerate pf clock st r = (Returned st', r') \<and>
           length (results st') = AUGMENTATION_COUNT \<and>
           (\<forall>i<AUGMENTATION_COUNT. \<exists>cv q.
              results st' ! i = \<lparr>id_n = i, dataUrl = Jpeg cv q, name = file_name (clock i) i\<rparr> \<and>
              width cv = img_width img \<and> height cv = img_height img)"
proof -
  let ?Q = "\<lambda>i g. \<exists>cv q. g = \<lparr>id_n = i, dataUrl = Jpeg cv q, name = file_name (clock i) i\<rparr> \<and>
              width cv = img_width img \<and> height cv = img_height img"
  have ok: "\<forall>i r. \<exists>g. fst (applyAugmentation pf img (params st) i (clock i) r) = Inr g \<and> ?Q i g"
  proof (intro allI)
    fix i r
    from applyAugmentation_pos [OF pos, of pf "params st" i "clock i" r]
    obtain g where g: "fst (applyAugmentation pf img (params st) i (clock i) r) = Inr g"
      by blast
    from applyAugmentation_sample [OF g] g
    show "\<exists>g. fst (applyAugmentation pf img (params st) i (clock i) r) = Inr g \<and> ?Q i g"
      by blast
  qed
  from generate_loop_all [where Q = ?Q, OF ok, of 0 "[]" r]
  obtain res r' where loop: "generate_loop pf clock img (params st) 0 [] r = (Inr res, r')"
    and len: "length res = AUGMENTATION_COUNT"
    and all: "\<forall>k. k < AUGMENTATION_COUNT \<longrightarrow> ?Q k (res ! k)"
    by auto
  have "handleGenerate pf clock st r =
          (Returned (st\<lparr>isProcessing := True, results := []\<rparr>
                      \<lparr>results := res, isProcessing := False\<rparr>), r')"
    using src loop by (simp add: handleGenerate_def)
  with len all show ?thesis by auto
qed

lemma handleGenerate_zero:
  assumes src: "sourceImage st = Some src" "src \<noteq> []" "decode pf src = Some img"
    and zero: "img_width img = 0 \<or> img_height img = 0"
  shows "\<exists>r'. handleGenerate pf clock st r =
           (Rejected IndexSizeError (st\<lparr>isProcessing := True, results := []\<rparr>), r') \<and>
           used r' = used r + 7"
proof -
  from generate_loop_zero [OF zero, of pf clock "params st" r]
  obtain r' where "generate_loop pf clock img (params st) 0 [] r = (Inl IndexSizeError, r')"
    and "used r' = used r + 7" by blast
  then show ?thesis using src by (simp add: handleGenerate_def)
qed

text \<open>
  C1. When the source is set and decodes to an image of positive width and height, one
  call of \<open>handleGenerate\<close> returns with exactly \<open>AUGMENTATION_COUNT\<close> = 20 samples,
  in generation order: the sample at position \<open>i\<close> has id \<open>i\<close> and the file name
  \<open>aug_<timestamp>_<i>.jpg\<close>.
\<close>

theorem handleGenerate_batch:
  assumes "sourceImage st = Some src" and "src \<noteq> []" and "decode pf src = Some img"
    and "0 < img_width img" and "0 < img_height img"
  shows "\<exists>st' r'. handleGenerate pf clock st r = (Returned st', r') \<and>
           length (results st') = AUGMENTATION_COUNT \<and>
           AUGMENTATION_COUNT = 20 \<and>
           (\<forall>i<AUGMENTATION_COUNT.
              id_n (results st' ! i) = i \<and>
              name (results st' ! i) =
                ''aug_'' @ string_of_nat (clock i) @ ''_'' @ string_of_nat i @ ''.jpg'')"
proof -
  from handleGenerate_valid [OF assms, of clock r]
  obtain st' r' where h: "handleGenerate pf clock st r = (Returned st', r')"
    and len: "length (results st') = AUGMENTATION_COUNT"
    and all: "\<forall>i<AUGMENTATION_COUNT. \<exists>cv q.
              results st' ! i = \<lparr>id_n = i, dataUrl = Jpeg cv q, name = file_name (clock i) i\<rparr> \<and>
              width cv = img_width img \<and> height cv = img_height img"
    by blast
  have "id_n (results st' ! i) = i \<and>
        name (results st' ! i) =
          ''aug_'' @ string_of_nat (clock i) @ ''_'' @ string_of_nat i @ ''.jpg''"
    if "i < AUGMENTATION_COUNT" for i
  proof -
    from all that obtain cv q where
      "results st' ! i = \<lparr>id_n = i, dataUrl = Jpeg cv q, name = file_name (clock i) i\<rparr>"
      by blast
    then show ?thesis by (simp add: file_name_def)
  qed
  with h len show ?thesis by (auto simp: AUGMENTATION_COUNT_def)
qed

theorem handleGenerate_batch_witness:
  "\<exists>st' r'. handleGenerate ex_pf ex_clock ex_app (const_rng (1 / 2)) = (Returned st', r') \<and>
     length (results st') = 20 \<and>
     id_n (results st' ! 0) = 0 \<and>
     id_n (results st' ! 19) = 19 \<and>
     name (results st' ! 19) =
       ''aug_'' @ string_of_nat (ex_clock 19) @ ''_'' @ string_of_nat 19 @ ''.jpg''"
proof -
  have a: "sourceImage ex_app = Some ''data:image/png;base64,iVBORw0KGgo=''"
    by (simp add: ex_app_def)
  have b: "''data:image/png;base64,iVBORw0KGgo='' \<noteq> []" by simp
  have c: "decode ex_pf ''data:image/png;base64,iVBORw0KGgo='' =
             Some \<lparr>img_width = 2, img_height = 1, img_src = ''data:image/png;base64,iVBORw0KGgo=''\<rparr>"
    by (simp add: ex_pf_def)
  from handleGenerate_batch [OF a b c, of ex_clock "const_rng (1 / 2)"]
  show ?thesis by (auto simp: AUGMENTATION_COUNT_def)
qed

subsection \<open>Rotation\<close>







subsection \<open>Source validation\<close>

text \<open>
  C2, as the claim states it, fails: on a source of width zero the call consumes seven
  draws (the geometric stage of the first sample) before it fails, and the failure is
  the \<open>IndexSizeError\<close> of \<open>getImageData\<close>, not a validation error.
\<close>

theorem zero_width_consumes_draws:
  "fst (handleGenerate zero_pf ex_clock ex_app (const_rng (1 / 2))) =
     Rejected IndexSizeError (ex_app\<lparr>isProcessing := True, results := []\<rparr>) \<and>
   used (const_rng (1 / 2)) = 0 \<and>
   used (snd (handleGenerate zero_pf ex_clock ex_app (const_rng (1 / 2)))) = 7"
proof -
  have z: "img_width \<lparr>img_width = 0, img_height = 50,
             img_src = ''data:image/png;base64,iVBORw0KGgo=''\<rparr> = 0 \<or>
           img_height \<lparr>img_width = 0, img_height = 50,
             img_src = ''data:image/png;base64,iVBORw0KGgo=''\<rparr> = 0" by simp
  have n: "''data:image/png;base64,iVBORw0KGgo='' \<noteq> []" by simp
  from handleGenerate_zero [OF ex_app_source n zero_pf_decode z, of ex_clock "const_rng (1 / 2)"]
  show ?thesis by (auto simp: const_rng_def)
qed

text \<open>
  C2, amended. \<open>handleGenerate\<close> does not validate the dimensions of the source. Its
  only guard is the early return when no source is set, which produces nothing and
  consumes no draw. With a source of width or height zero, the geometric stage of the
  first sample consumes its seven draws, then reading the pixel buffer fails with
  \<open>IndexSizeError\<close>; the call is rejected and no sample is produced.
\<close>

theorem handleGenerate_no_validation:
  "(sourceImage st = None \<or> sourceImage st = Some [] \<longrightarrow>
      handleGenerate pf clock st r = (Returned st, r)) \<and>
   (sourceImage st = Some src \<and> src \<noteq> [] \<and> decode pf src = Some img \<and>
    (img_width img = 0 \<or> img_height img = 0) \<longrightarrow>
      (\<exists>r'. handleGenerate pf clock st r =
              (Rejected IndexSizeError (st\<lparr>isProcessing := True, results := []\<rparr>), r') \<and>
            used r' = used r + 7))"
proof (intro conjI impI)
  assume "sourceImage st = None \<or> sourceImage st = Some []"
  then show "handleGenerate pf clock st r = (Returned st, r)"
    by (auto simp: handleGenerate_def)
next
  assume a: "sourceImage st = Some src \<and> src \<noteq> [] \<and> decode pf src = Some img \<and>
    (img_width img = 0 \<or> img_height img = 0)"
  then show "\<exists>r'. handleGenerate pf clock st r =
              (Rejected IndexSizeError (st\<lparr>isProcessing := True, results := []\<rparr>), r') \<and>
            used r' = used r + 7"
    using handleGenerate_zero [of st src pf img clock r] by blast
qed

theorem handleGenerate_no_validation_witness:
  "handleGenerate zero_pf ex_clock (ex_app\<lparr>sourceImage := None\<rparr>) (const_rng (1 / 2)) =
     (Returned (ex_app\<lparr>sourceImage := None\<rparr>), const_rng (1 / 2)) \<and>
   (\<exists>r'. handleGenerate zero_pf ex_clock ex_app (const_rng (1 / 2)) =
           (Rejected IndexSizeError (ex_app\<lparr>isProcessing := True, results := []\<rparr>), r') \<and>
         used r' = 7)"
  using handleGenerate_no_validation
          [where st = "ex_app\<lparr>sourceImage := None\<rparr>" and pf = zero_pf and clock = ex_clock
             and r = "const_rng (1 / 2)"]
        handleGenerate_no_validation
          [where st = ex_app and src = "''data:image/png;base64,iVBORw0KGgo=''" and pf = zero_pf
             and img = "\<lparr>img_width = 0, img_height = 50,
                          img_src = ''data:image/png;base64,iVBORw0KGgo=''\<rparr>"
             and clock = ex_clock and r = "const_rng (1 / 2)"]
  by (simp add: ex_app_source zero_pf_decode) (simp add: const_rng_def)

subsection \<open>Dimensions\<close>

text \<open>
  C3. The canvas handed to the encoder has the width and the height of the source image,
  for one sample and for every sample of a batch; no stage changes the dimensions of
  the canvas, and the pixel loop keeps the length of the buffer it adjusts.
\<close>

theorem output_dimensions:
  "(fst (applyAugmentation pf img p index ts r) = Inr g \<and> dataUrl g = Jpeg cv q \<longrightarrow>
      width cv = img_width img \<and> height cv = img_height img) \<and>
   width (fst (geometric_stage img index c r)) = width c \<and>
   height (fst (geometric_stage img index c r)) = height c \<and>
   (fst (pixel_stage pf p c r) = Inr c' \<longrightarrow> width c' = width c \<and> height c' = height c) \<and>
   length (fst (pixel_loop pf p ph i data r)) = length data \<and>
   width (fst (fog_overlay p c r)) = width c \<and>
   height (fst (fog_overlay p c r)) = height c \<and>
   width (fst (rain_overlay p c r)) = width c \<and>
   height (fst (rain_overlay p c r)) = height c \<and>
   width (fst (glare_overlay p c r)) = width c \<and>
   height (fst (glare_overlay p c r)) = height c \<and>
   width (fst (artifact_stage p c r)) = width c \<and>
   height (fst (artifact_stage p c r)) = height c \<and>
   (sourceImage st = Some src \<and> src \<noteq> [] \<and> decode pf src = Some img \<and>
    0 < img_width img \<and> 0 < img_height img \<longrightarrow>
      (\<exists>st' r'. handleGenerate pf clock st r = (Returned st', r') \<and>
         (\<forall>i<AUGMENTATION_COUNT. \<exists>cv q. dataUrl (results st' ! i) = Jpeg cv q \<and>
            width cv = img_width img \<and> height cv = img_height img)))"
proof -
  have sample: "fst (applyAugmentation pf img p index ts r) = Inr g \<and> dataUrl g = Jpeg cv q \<longrightarrow>
      width cv = img_width img \<and> height cv = img_height img"
    using applyAugmentation_sample [of pf img p index ts r g] by auto
  have ps: "fst (pixel_stage pf p c r) = Inr c' \<longrightarrow> width c' = width c \<and> height c' = height c"
  proof
    assume a: "fst (pixel_stage pf p c r) = Inr c'"
    then have "0 < width c \<and> 0 < height c"
      using pixel_stage_zero [of c pf p r] by (cases "width c = 0 \<or> height c = 0") auto
    with pixel_stage_pos [of c pf p r] a show "width c' = width c \<and> height c' = height c"
      by (auto simp: grows_def)
  qed
  have batch: "sourceImage st = Some src \<and> src \<noteq> [] \<and> decode pf src = Some img \<and>
    0 < img_width img \<and> 0 < img_height img \<longrightarrow>
      (\<exists>st' r'. handleGenerate pf clock st r = (Returned st', r') \<and>
         (\<forall>i<AUGMENTATION_COUNT. \<exists>cv q. dataUrl (results st' ! i) = Jpeg cv q \<and>
            width cv = img_width img \<and> height cv = img_height img))"
  proof
    assume a: "sourceImage st = Some src \<and> src \<noteq> [] \<and> decode pf src = Some img \<and>
      0 < img_width img \<and> 0 < img_height img"
    then have "sourceImage st = Some src" "src \<noteq> []" "decode pf src = Some img"
      "0 < img_width img" "0 < img_height img" by simp_all
    from handleGenerate_valid [OF this, of clock r]
    obtain st' r' where h: "handleGenerate pf clock st r = (Returned st', r')"
      and all: "\<forall>i<AUGMENTATION_COUNT. \<exists>cv q.
              results st' ! i = \<lparr>id_n = i, dataUrl = Jpeg cv q, name = file_name (clock i) i\<rparr> \<and>
              width cv = img_width img \<and> height cv = img_height img"
      by blast
    have "\<exists>cv q. dataUrl (results st' ! i) = Jpeg cv q \<and>
            width cv = img_width img \<and> height cv = img_height img"
      if "i < AUGMENTATION_COUNT" for i
    proof -
      from all that obtain cv q where
        "results st' ! i = \<lparr>id_n = i, dataUrl = Jpeg cv q, name = file_name (clock i) i\<rparr>"
        "width cv = img_width img \<and> height cv = img_height img" by blast
      then show ?thesis by simp
    qed
    with h show "\<exists>st' r'. handleGenerate pf clock st r = (Returned st', r') \<and>
         (\<forall>i<AUGMENTATION_COUNT. \<exists>cv q. dataUrl (results st' ! i) = Jpeg cv q \<and>
            width cv = img_width img \<and> height cv = img_height img)" by blast
  qed
  show ?thesis
    using sample ps batch length_pixel_loop [of pf p ph i data r]
      grows_geometric [of c img index r] grows_fog [of c p r] grows_rain [of c p r]
      grows_glare [of c p r] grows_artifact [of c p r]
    unfolding grows_def by blast
qed

theorem output_dimensions_witness:
  "(\<exists>st' r'. handleGenerate ex_pf ex_clock ex_app (const_rng (1 / 2)) = (Returned st', r') \<and>
      (\<exists>cv q. dataUrl (results st' ! 19) = Jpeg cv q \<and> width cv = 2 \<and> height cv = 1)) \<and>
   width (fst (rain_overlay ex_params cv100 (const_rng (1 / 2)))) = 100 \<and>
   height (fst (artifact_stage ex_params cv100 (const_rng (1 / 2)))) = 50 \<and>
   length (fst (pixel_loop ex_pf ex_params (fst (photometric_draws ex_params (const_rng (1 / 2)))) 0
                  [10, 20, 30, 255] (const_rng (1 / 2)))) = 4"
proof -
  let ?S = "''data:image/png;base64,iVBORw0KGgo=''"
  let ?I = "\<lparr>img_width = 2, img_height = 1, img_src = ?S\<rparr>"
  note t = output_dimensions
          [where st = ex_app and src = ?S and pf = ex_pf and img = ?I
             and clock = ex_clock and r = "const_rng (1 / 2)" and c = cv100 and p = ex_params
             and ph = "fst (photometric_draws ex_params (const_rng (1 / 2)))" and i = 0
             and data = "[10, 20, 30, 255]" and index = 0 and ts = 0 and c' = cv100
             and cv = cv100 and q = 0
             and g = "\<lparr>id_n = 0, dataUrl = Jpeg cv100 0, name = []\<rparr>"]
  have prem: "sourceImage ex_app = Some ?S \<and> ?S \<noteq> [] \<and> decode ex_pf ?S = Some ?I \<and>
      0 < img_width ?I \<and> 0 < img_height ?I"
    by (simp add: ex_app_source ex_pf_def)
  have n: "19 < AUGMENTATION_COUNT" by (simp add: AUGMENTATION_COUNT_def)
  from t prem obtain st' r' where
    h: "handleGenerate ex_pf ex_clock ex_app (const_rng (1 / 2)) = (Returned st', r')"
    and all: "\<forall>i<AUGMENTATION_COUNT. \<exists>cv q. dataUrl (results st' ! i) = Jpeg cv q \<and>
            width cv = img_width ?I \<and> height cv = img_height ?I"
    by blast
  from all n have "\<exists>cv q. dataUrl (results st' ! 19) = Jpeg cv q \<and> width cv = 2 \<and> height cv = 1"
    by fastforce
  with h have batch: "\<exists>st' r'. handleGenerate ex_pf ex_clock ex_app (const_rng (1 / 2)) =
        (Returned st', r') \<and>
      (\<exists>cv q. dataUrl (results st' ! 19) = Jpeg cv q \<and> width cv = 2 \<and> height cv = 1)"
    by blast
  have c: "width cv100 = 100" "height cv100 = 50" by (simp_all add: cv100_def)
  from t have "width (fst (rain_overlay ex_params cv100 (const_rng (1 / 2)))) = width cv100"
    and "height (fst (artifact_stage ex_params cv100 (const_rng (1 / 2)))) = height cv100"
    and "length (fst (pixel_loop ex_pf ex_params (fst (photometric_draws ex_params (const_rng (1 / 2)))) 0
                  [10, 20, 30, 255] (const_rng (1 / 2)))) = length [10, 20, 30, 255 :: nat]"
    by blast+
  with batch c show ?thesis by simp
qed

subsection \<open>Overlay gates\<close>

lemma fog_applies:
  "applies (fog_overlay p) cv r \<longleftrightarrow> harshness p > 50 \<and> draws r 0 > 1 / 2"
  by (simp add: applies_def fog_overlay_def split_def Let_def random_def draw_def)

lemma rain_streaks_calls: "\<exists>cs. calls (fst (rain_streaks n cv r)) = calls cv @ cs"
  using grows_rain_streaks [of cv n r] by (simp add: grows_def)

lemma rain_streaks_changes:
  "cs \<noteq> [] \<Longrightarrow> calls (fst (rain_streaks n (draw cs cv) r)) \<noteq> calls cv"
  using rain_streaks_calls [of n "draw cs cv" r] by (auto simp: draw_def)

lemma rain_applies:
  "applies (rain_overlay p) cv r \<longleftrightarrow> harshness p > 70 \<and> draws r 0 > 6 / 10"
  by (simp add: applies_def rain_overlay_def split_def Let_def random_def rain_streaks_changes)

lemma glare_applies:
  "applies (glare_overlay p) cv r \<longleftrightarrow> lightAging p > 60 \<and> draws r 0 > 7 / 10"
  by (simp add: applies_def glare_overlay_def split_def Let_def random_def draw_def)


text \<open>
  C5, as the claim states it, fails for rain and glare: at all parameters 100, no draw
  in \<open>[0, 0.6]\<close> makes the rain flip succeed and no draw in \<open>[0, 0.7]\<close> makes the glare
  flip succeed, so the flips succeed with probability at most 40% and 30%, not 60% and
  70%.
\<close>

theorem rain_and_glare_flips:
  "\<not> (\<exists>u. 0 \<le> u \<and> u \<le> 6 / 10 \<and> applies (rain_overlay all100) cv100 (const_rng u)) \<and>
   \<not> (\<exists>u. 0 \<le> u \<and> u \<le> 7 / 10 \<and> applies (glare_overlay all100) cv100 (const_rng u)) \<and>
   \<not> applies (rain_overlay all100) cv100 (const_rng (55 / 100)) \<and>
   \<not> applies (glare_overlay all100) cv100 (const_rng (65 / 100))"
  by (auto simp: rain_applies glare_applies all100_def const_rng_def)


text \<open>
  C5, amended. Fog applies exactly when \<open>harshness > 50\<close> and the flip's draw exceeds
  0.5; rain exactly when \<open>harshness > 70\<close> and the draw exceeds 0.6; glare exactly when
  \<open>lightAging > 60\<close> and the draw exceeds 0.7. With \<open>harshness = 0\<close> and
  \<open>lightAging = 0\<close> no overlay applies. At all parameters 100 the draws in \<open>[0, 1)\<close>
  for which the overlay applies are the intervals \<open>(0.5, 1)\<close>, \<open>(0.6, 1)\<close> and
  \<open>(0.7, 1)\<close>: probabilities 50%, 40% and 30% under a uniform draw.
\<close>

theorem overlay_gates:
  "(applies (fog_overlay p) cv r \<longleftrightarrow> harshness p > 50 \<and> draws r 0 > 1 / 2) \<and>
   (applies (rain_overlay p) cv r \<longleftrightarrow> harshness p > 70 \<and> draws r 0 > 6 / 10) \<and>
   (applies (glare_overlay p) cv r \<longleftrightarrow> lightAging p > 60 \<and> draws r 0 > 7 / 10) \<and>
   (harshness p = 0 \<and> lightAging p = 0 \<longrightarrow>
      \<not> applies (fog_overlay p) cv r \<and> \<not> applies (rain_overlay p) cv r \<and>
      \<not> applies (glare_overlay p) cv r) \<and>
   {u. 0 \<le> u \<and> u < 1 \<and> applies (fog_overlay all100) cv (r\<lparr>draws := (draws r)(0 := u)\<rparr>)}
     = {1 / 2 <..< 1} \<and>
   {u. 0 \<le> u \<and> u < 1 \<and> applies (rain_overlay all100) cv (r\<lparr>draws := (draws r)(0 := u)\<rparr>)}
     = {6 / 10 <..< 1} \<and>
   {u. 0 \<le> u \<and> u < 1 \<and> applies (glare_overlay all100) cv (r\<lparr>draws := (draws r)(0 := u)\<rparr>)}
     = {7 / 10 <..< 1}"
  by (auto simp: fog_applies rain_applies glare_applies all100_def)

theorem overlay_gates_witness:
  "applies (fog_overlay all100) cv100 (const_rng (3 / 4)) \<and>
   applies (rain_overlay all100) cv100 (const_rng (3 / 4)) \<and>
   applies (glare_overlay all100) cv100 (const_rng (3 / 4)) \<and>
   \<not> applies (fog_overlay all0) cv100 (const_rng (3 / 4)) \<and>
   \<not> applies (rain_overlay all0) cv100 (const_rng (3 / 4)) \<and>
   \<not> applies (glare_overlay all0) cv100 (const_rng (3 / 4)) \<and>
   {u. 0 \<le> u \<and> u < 1 \<and>
       applies (rain_overlay all100) cv100
         ((const_rng (3 / 4))\<lparr>draws := (draws (const_rng (3 / 4)))(0 := u)\<rparr>)} = {6 / 10 <..< 1}"
  using overlay_gates [of all100 cv100 "const_rng (3 / 4)"]
        overlay_gates [of all0 cv100 "const_rng (3 / 4)"]
  by (simp add: all100_def all0_def const_rng_def)

subsection \<open>Dirt marks\<close>

lemma dirt_mark_calls:
  "fst (dirt_mark cv r) =
     [SetFillStyle (Color (Rgba (draws r 3 * 50) (draws r 4 * 50) (draws r 5 * 50)
                              (draws r 6 * 0.5))),
      BeginPath,
      (if draws r 7 > 1 / 2
       then Arc (draws r 0 * real (width cv)) (draws r 1 * real (height cv))
              (1 + draws r 2 * (real (width cv) / 20)) 0 (pi * 2)
       else Rect (draws r 0 * real (width cv)) (draws r 1 * real (height cv))
              (1 + draws r 2 * (real (width cv) / 20))
              ((1 + draws r 2 * (real (width cv) / 20)) * 0.2)),
      Fill]"
  by (simp add: dirt_mark_def random_def Let_def split_def eval_nat_numeral)

lemma dirt_mark_rng:
  "snd (dirt_mark cv r) = \<lparr>draws = (\<lambda>n. draws r (n + 8)), used = used r + 8\<rparr>"
  by (simp add: dirt_mark_def random_def Let_def split_def eval_nat_numeral)

lemma double_draws_unit: "double_draws r \<Longrightarrow> unit_draws r"
  by (simp add: double_draws_def unit_draws_def)

lemma double_draws_nth:
  assumes "double_draws r"
  shows "rnd (draws r n) = draws r n" and "0 \<le> draws r n" and "draws r n < 1"
    and "draws r n \<le> 1 - 1 / 2 ^ 53"
proof -
  from assms show a: "rnd (draws r n) = draws r n" and "0 \<le> draws r n" and b: "draws r n < 1"
    by (simp_all add: double_draws_def)
  from a b show "draws r n \<le> 1 - 1 / 2 ^ 53" by (rule double_below_1)
qed

text \<open>
  The double product of line 185 is within \<open>2^-47\<close> of the exact product, and below 30,
  for a \<open>dirtiness\<close> in \<open>[0, 100]\<close>.
\<close>

lemma dirt_product:
  assumes d: "0 \<le> d" "d \<le> 100" and u: "0 \<le> u" "u \<le> 1 - 1 / 2 ^ 53"
  shows "\<bar>rnd (rnd (rnd (d / 100) * 30) * u) - (d / 100) * 30 * u\<bar> \<le> 1 / 2 ^ 47"
    and "0 \<le> rnd (rnd (rnd (d / 100) * 30) * u)"
    and "rnd (rnd (rnd (d / 100) * 30) * u) < 30"
proof -
  define a where "a = rnd (d / 100)"
  define b where "b = rnd (a * 30)"
  define c where "c = rnd (b * u)"
  have u1: "u \<le> 1" using u(2) by simp
  have a0: "0 \<le> a" unfolding a_def using d(1) by (intro rnd_nonneg) simp
  have "rnd (d / 100) \<le> rnd 1" using d(2) by (intro rnd_mono) simp
  then have a1: "a \<le> 1" by (simp add: a_def)
  have ea: "\<bar>a - d / 100\<bar> \<le> 1 / 2 ^ 54"
    unfolding a_def using d by (intro rnd_err_unit) simp
  have b0: "0 \<le> b" unfolding b_def using a0 by (intro rnd_nonneg) simp
  have r30: "rnd 30 = 30" by (simp add: rnd_eval)
  have "rnd (a * 30) \<le> rnd 30" using a1 by (intro rnd_mono) simp
  then have b30: "b \<le> 30" by (simp add: b_def r30)
  have p5: "pow2 5 = 32" "pow2 (- 49) = 1 / 2 ^ 49" by (simp_all add: pow2_def)
  have "\<bar>rnd (a * 30) - a * 30\<bar> \<le> pow2 (5 - 54)"
    using a0 a1 by (intro rnd_err_pow2) (simp_all add: p5)
  then have eb: "\<bar>b - a * 30\<bar> \<le> 1 / 2 ^ 49" by (simp add: b_def p5)
  have bu0: "0 \<le> b * u" using b0 u(1) by simp
  have "b * u \<le> 30 * 1" using b30 u1 b0 u(1) by (intro mult_mono) simp_all
  then have bu30: "b * u \<le> 30" by simp
  have "\<bar>rnd (b * u) - b * u\<bar> \<le> pow2 (5 - 54)"
    using bu0 bu30 by (intro rnd_err_pow2) (simp_all add: p5)
  then have ec: "\<bar>c - b * u\<bar> \<le> 1 / 2 ^ 49" by (simp add: c_def p5)
  have "b * u - a * 30 * u = (b - a * 30) * u" by (simp only: left_diff_distrib)
  then have "\<bar>b * u - a * 30 * u\<bar> = \<bar>b - a * 30\<bar> * \<bar>u\<bar>" by (simp only: abs_mult)
  also have "\<dots> = \<bar>b - a * 30\<bar> * u" using u(1) by simp
  also have "\<dots> \<le> (1 / 2 ^ 49) * 1" using eb u(1) u1 by (intro mult_mono) simp_all
  finally have e2: "\<bar>b * u - a * 30 * u\<bar> \<le> 1 / 2 ^ 49" by simp
  have "a * 30 * u - (d / 100) * 30 * u = (a - d / 100) * (30 * u)"
    by (simp only: left_diff_distrib mult.assoc)
  then have "\<bar>a * 30 * u - (d / 100) * 30 * u\<bar> = \<bar>a - d / 100\<bar> * \<bar>30 * u\<bar>"
    by (simp only: abs_mult)
  also have "\<dots> = \<bar>a - d / 100\<bar> * (30 * u)" using u(1) by simp
  also have "\<dots> \<le> (1 / 2 ^ 54) * (30 * 1)" using ea u(1) u1 by (intro mult_mono) simp_all
  finally have e3: "\<bar>a * 30 * u - (d / 100) * 30 * u\<bar> \<le> 30 / 2 ^ 54" by simp
  have "\<bar>c - (d / 100) * 30 * u\<bar> \<le> 1 / 2 ^ 49 + 1 / 2 ^ 49 + 30 / 2 ^ 54"
    using ec e2 e3 by linarith
  also have "\<dots> \<le> 1 / 2 ^ 47" by simp
  finally show "\<bar>rnd (rnd (rnd (d / 100) * 30) * u) - (d / 100) * 30 * u\<bar> \<le> 1 / 2 ^ 47"
    by (simp add: a_def b_def c_def)
  show "0 \<le> rnd (rnd (rnd (d / 100) * 30) * u)"
    using bu0 unfolding a_def b_def by (rule rnd_nonneg)
  have top: "rnd (30 * (1 - 1 / 2 ^ 53)) = 8444249301319679 / 2 ^ 48" by (simp add: rnd_eval)
  have "b * u \<le> 30 * (1 - 1 / 2 ^ 53)" using b30 u b0 by (intro mult_mono) simp_all
  then have "rnd (b * u) \<le> rnd (30 * (1 - 1 / 2 ^ 53))" by (rule rnd_mono)
  then have "rnd (b * u) \<le> 8444249301319679 / 2 ^ 48" by (simp only: top)
  then have "c < 30" by (simp add: c_def)
  then show "rnd (rnd (rnd (d / 100) * 30) * u) < 30" by (simp add: a_def b_def c_def)
qed

text \<open>
  At \<open>dirtiness = 96\<close> and a draw of \<open>15 / 16\<close> the double product is
  \<open>26.999999999999996\<close> and 26 marks are drawn; the exact product is 27.
\<close>

lemma dirtCount_rounded:
  "dirtCount dusty (15 / 16) = 26 \<and> \<lfloor>(dirtiness dusty / 100) * 30 * (15 / 16) :: real\<rfloor> = 27"
  by (simp add: dirtCount_def dusty_def rnd_eval)

text \<open>
  C8, as the claim states it, fails on the size: on a canvas 100 wide and a draw of
  \<open>7 / 8\<close> the mark has size 5.375, more than a twentieth of the width.
\<close>

theorem dirt_mark_size_exceeds:
  "fst (dirt_mark cv100 (const_rng (7 / 8))) =
     [SetFillStyle (Color (Rgba (175 / 4) (175 / 4) (175 / 4) (7 / 16))), BeginPath,
      Arc (175 / 2) (175 / 4) (43 / 8) 0 (pi * 2), Fill] \<and>
   real (width cv100) / 20 = 5 \<and> \<not> (43 / 8 \<le> real (width cv100) / 20)"
  by (simp add: dirt_mark_calls const_rng_def cv100_def)

text \<open>
  C8, amended. The number of marks is the floor of the product
  \<open>(dirtiness / 100) * 30 * U\<close> computed in double arithmetic, from left to right, for
  the stage's first draw \<open>U\<close>; it is 0 at \<open>dirtiness = 0\<close>. For a \<open>dirtiness\<close> in
  \<open>[0, 100]\<close> the double product is within \<open>2^-47\<close> of the exact one and the count is
  between 0 and 29. Each mark, from draws in \<open>[0, 1)\<close>, has a size
  \<open>1 + u * width / 20\<close>, between 1 and 1 plus a twentieth of the width; a fill colour
  with each channel in \<open>[0, 50]\<close> and alpha in \<open>[0, 0.5]\<close>; and is a circle of that
  radius when its shape draw exceeds 0.5, otherwise a rectangle of that width and of
  height 20% of it.
\<close>

theorem artifact_marks:
  assumes "double_draws r"
  shows "artifact_stage p cv r =
           dirt_marks (nat \<lfloor>rnd (rnd (rnd (dirtiness p / 100) * 30) * draws r 0)\<rfloor>) cv
             (snd (random r)) \<and>
         (dirtiness p = 0 \<longrightarrow> artifact_stage p cv r = (cv, snd (random r))) \<and>
         (0 \<le> dirtiness p \<and> dirtiness p \<le> 100 \<longrightarrow>
            \<bar>rnd (rnd (rnd (dirtiness p / 100) * 30) * draws r 0) -
               (dirtiness p / 100) * 30 * draws r 0\<bar> \<le> 1 / 2 ^ 47 \<and>
            0 \<le> dirtCount p (draws r 0) \<and> dirtCount p (draws r 0) \<le> 29) \<and>
         dirt_marks (Suc n) cv r =
           dirt_marks n (draw (fst (dirt_mark cv r)) cv) (snd (dirt_mark cv r)) \<and>
         (\<exists>x y size cr cg cb ca.
            fst (dirt_mark cv r) =
              [SetFillStyle (Color (Rgba cr cg cb ca)), BeginPath,
               (if draws r 7 > 1 / 2 then Arc x y size 0 (pi * 2)
                else Rect x y size (size * 0.2)),
               Fill] \<and>
            size = 1 + draws r 2 * (real (width cv) / 20) \<and>
            1 \<le> size \<and> size \<le> 1 + real (width cv) / 20 \<and>
            0 \<le> cr \<and> cr \<le> 50 \<and> 0 \<le> cg \<and> cg \<le> 50 \<and> 0 \<le> cb \<and> cb \<le> 50 \<and>
            0 \<le> ca \<and> ca \<le> 0.5) \<and>
         double_draws (snd (dirt_mark cv r))"
proof -
  have a: "artifact_stage p cv r =
           dirt_marks (nat \<lfloor>rnd (rnd (rnd (dirtiness p / 100) * 30) * draws r 0)\<rfloor>) cv
             (snd (random r))"
    by (simp add: artifact_stage_def dirtCount_def random_def)
  have b: "dirtiness p = 0 \<longrightarrow> artifact_stage p cv r = (cv, snd (random r))"
    by (simp add: a)
  have b': "0 \<le> dirtiness p \<and> dirtiness p \<le> 100 \<longrightarrow>
            \<bar>rnd (rnd (rnd (dirtiness p / 100) * 30) * draws r 0) -
               (dirtiness p / 100) * 30 * draws r 0\<bar> \<le> 1 / 2 ^ 47 \<and>
            0 \<le> dirtCount p (draws r 0) \<and> dirtCount p (draws r 0) \<le> 29"
  proof
    assume h: "0 \<le> dirtiness p \<and> dirtiness p \<le> 100"
    note dp = dirt_product [of "dirtiness p" "draws r 0"]
    note dn = double_draws_nth [OF assms, of 0]
    from h dn have e: "\<bar>rnd (rnd (rnd (dirtiness p / 100) * 30) * draws r 0) -
               (dirtiness p / 100) * 30 * draws r 0\<bar> \<le> 1 / 2 ^ 47"
      by (intro dp(1)) simp_all
    from h dn have lo: "0 \<le> rnd (rnd (rnd (dirtiness p / 100) * 30) * draws r 0)"
      by (intro dp(2)) simp_all
    from h dn have hi: "rnd (rnd (rnd (dirtiness p / 100) * 30) * draws r 0) < 30"
      by (intro dp(3)) simp_all
    from lo have c0: "0 \<le> dirtCount p (draws r 0)" by (simp add: dirtCount_def)
    from hi have "dirtCount p (draws r 0) < 30" unfolding dirtCount_def by (simp add: floor_less_iff)
    with e c0 show "\<bar>rnd (rnd (rnd (dirtiness p / 100) * 30) * draws r 0) -
               (dirtiness p / 100) * 30 * draws r 0\<bar> \<le> 1 / 2 ^ 47 \<and>
            0 \<le> dirtCount p (draws r 0) \<and> dirtCount p (draws r 0) \<le> 29" by simp
  qed
  have c: "dirt_marks (Suc n) cv r =
           dirt_marks n (draw (fst (dirt_mark cv r)) cv) (snd (dirt_mark cv r))"
    by (simp add: split_def Let_def)
  from assms have u: "0 \<le> draws r k \<and> draws r k < 1" for k
    by (simp add: double_draws_def)
  have size: "1 \<le> 1 + draws r 2 * (real (width cv) / 20) \<and>
              1 + draws r 2 * (real (width cv) / 20) \<le> 1 + real (width cv) / 20"
  proof -
    have "draws r 2 * (real (width cv) / 20) \<le> 1 * (real (width cv) / 20)"
      using u [of 2] by (intro mult_right_mono) simp_all
    moreover have "0 \<le> draws r 2 * (real (width cv) / 20)"
      using u [of 2] by simp
    ultimately show ?thesis by simp
  qed
  have col: "0 \<le> draws r 3 * 50 \<and> draws r 3 * 50 \<le> 50 \<and> 0 \<le> draws r 4 * 50 \<and>
             draws r 4 * 50 \<le> 50 \<and> 0 \<le> draws r 5 * 50 \<and> draws r 5 * 50 \<le> 50 \<and>
             0 \<le> draws r 6 * 0.5 \<and> draws r 6 * 0.5 \<le> 0.5"
    using u [of 3] u [of 4] u [of 5] u [of 6] by simp
  have d: "\<exists>x y size cr cg cb ca.
            fst (dirt_mark cv r) =
              [SetFillStyle (Color (Rgba cr cg cb ca)), BeginPath,
               (if draws r 7 > 1 / 2 then Arc x y size 0 (pi * 2)
                else Rect x y size (size * 0.2)),
               Fill] \<and>
            size = 1 + draws r 2 * (real (width cv) / 20) \<and>
            1 \<le> size \<and> size \<le> 1 + real (width cv) / 20 \<and>
            0 \<le> cr \<and> cr \<le> 50 \<and> 0 \<le> cg \<and> cg \<le> 50 \<and> 0 \<le> cb \<and> cb \<le> 50 \<and>
            0 \<le> ca \<and> ca \<le> 0.5"
    apply (rule exI [of _ "draws r 0 * real (width cv)"])
    apply (rule exI [of _ "draws r 1 * real (height cv)"])
    apply (rule exI [of _ "1 + draws r 2 * (real (width cv) / 20)"])
    apply (rule exI [of _ "draws r 3 * 50"])
    apply (rule exI [of _ "draws r 4 * 50"])
    apply (rule exI [of _ "draws r 5 * 50"])
    apply (rule exI [of _ "draws r 6 * 0.5"])
    using size col by (simp add: dirt_mark_calls)
  have e: "double_draws (snd (dirt_mark cv r))"
    using assms by (simp add: dirt_mark_rng double_draws_def)
  from a b b' c d e show ?thesis by blast
qed

theorem artifact_marks_witness:
  "double_draws (const_rng (1 / 2)) \<and>
   artifact_stage ex_params cv100 (const_rng (1 / 2)) =
     dirt_marks 4 cv100 (snd (random (const_rng (1 / 2)))) \<and>
   artifact_stage all0 cv100 (const_rng (1 / 2)) = (cv100, snd (random (const_rng (1 / 2)))) \<and>
   dirtCount ex_params (draws (const_rng (1 / 2)) 0) \<le> 29 \<and>
   double_draws (snd (dirt_mark cv100 (const_rng (1 / 2))))"
proof -
  have u: "double_draws (const_rng (1 / 2))"
    by (simp add: double_draws_def const_rng_def)
  have c: "\<lfloor>rnd (rnd (rnd (30 / 100) * 30) * (1 / 2))\<rfloor> = 4" by (simp add: rnd_eval)
  from artifact_marks [OF u, of ex_params cv100] artifact_marks [OF u, of all0 cv100] u c
  show ?thesis by (simp add: ex_params_def all0_def const_rng_def)
qed

subsection \<open>The hue rotation is never used\<close>

lemma adjust_channel_hue:
  "adjust_channel pf (ph\<lparr>hueRotation := x\<rparr>) c d = adjust_channel pf ph c d"
  by (simp add: adjust_channel_def Let_def)

lemma pixel_step_hue:
  "pixel_step pf p (ph\<lparr>hueRotation := x\<rparr>) i data r = pixel_step pf p ph i data r"
  by (simp add: pixel_step_def adjust_pixel_def adjust_channel_hue)

lemma pixel_loop_hue:
  "pixel_loop pf p (ph\<lparr>hueRotation := x\<rparr>) i data r = pixel_loop pf p ph i data r"
proof (induction pf p ph i data r rule: pixel_loop.induct)
  case (1 pf p ph i data r)
  have L: "pixel_loop pf p (ph\<lparr>hueRotation := x\<rparr>) i data r =
     (if i < length data
      then pixel_loop pf p (ph\<lparr>hueRotation := x\<rparr>) (i + 4) (fst (pixel_step pf p ph i data r))
             (snd (pixel_step pf p ph i data r))
      else (data, r))"
    by (subst pixel_loop.simps) (simp add: pixel_step_hue)
  have R: "pixel_loop pf p ph i data r =
     (if i < length data
      then pixel_loop pf p ph (i + 4) (fst (pixel_step pf p ph i data r))
             (snd (pixel_step pf p ph i data r))
      else (data, r))"
    by (rule pixel_loop.simps)
  show ?case
  proof (cases "i < length data")
    case True
    with "1.IH" L R show ?thesis by simp
  next
    case False
    with L R show ?thesis by simp
  qed
qed

lemma photometric_draws_hue:
  "photometric_draws p (r\<lparr>draws := (draws r)(3 := x)\<rparr>) =
     ((fst (photometric_draws p r))\<lparr>hueRotation := (lightAging p / 100) * 360 * x\<rparr>,
      snd (photometric_draws p r))"
  by (simp add: photometric_draws_def random_def Let_def split_def eval_nat_numeral)

lemma pixel_stage_hue:
  "fst (pixel_stage pf p cv (r\<lparr>draws := (draws r)(3 := x)\<rparr>)) = fst (pixel_stage pf p cv r) \<and>
   (0 < width cv \<and> 0 < height cv \<longrightarrow>
      pixel_stage pf p cv (r\<lparr>draws := (draws r)(3 := x)\<rparr>) = pixel_stage pf p cv r)"
  by (simp add: pixel_stage_def photometric_draws_hue pixel_loop_hue split_def Let_def)

lemma geometric_stage_hue:
  "geometric_stage img index cv (r\<lparr>draws := (draws r)(10 := x)\<rparr>) =
     (fst (geometric_stage img index cv r),
      (snd (geometric_stage img index cv r))
        \<lparr>draws := (draws (snd (geometric_stage img index cv r)))(3 := x)\<rparr>)"
  by (simp add: geometric_stage_def geometric_draws_def random_def Let_def split_def
        eval_nat_numeral fun_eq_iff)

text \<open>
  C9. The hue rotation is computed from the eleventh draw of a sample (index 10) and
  from nothing else, and it is never used: replacing that draw by any other value
  leaves the generated sample unchanged (and, when the image has positive dimensions,
  the stream of draws left after the sample too).
\<close>

theorem hue_rotation_unused:
  "fst (applyAugmentation pf img p index ts (r\<lparr>draws := (draws r)(10 := x)\<rparr>)) =
     fst (applyAugmentation pf img p index ts r) \<and>
   (0 < img_width img \<and> 0 < img_height img \<longrightarrow>
      applyAugmentation pf img p index ts (r\<lparr>draws := (draws r)(10 := x)\<rparr>) =
        applyAugmentation pf img p index ts r) \<and>
   hueRotation (fst (photometric_draws p r)) = (lightAging p / 100) * 360 * draws r 3"
proof -
  let ?cv0 = "\<lparr>width = img_width img, height = img_height img, calls = []\<rparr>"
  let ?r' = "r\<lparr>draws := (draws r)(10 := x)\<rparr>"
  obtain cv1 r1 where g: "geometric_stage img index ?cv0 r = (cv1, r1)"
    by (cases "geometric_stage img index ?cv0 r")
  have g': "geometric_stage img index ?cv0 ?r' = (cv1, r1\<lparr>draws := (draws r1)(3 := x)\<rparr>)"
    by (simp add: geometric_stage_hue g)
  have dims: "width cv1 = img_width img \<and> height cv1 = img_height img"
    using grows_geometric [of ?cv0 img index r] g by (simp add: grows_def)
  have hue: "hueRotation (fst (photometric_draws p r)) = (lightAging p / 100) * 360 * draws r 3"
    by (simp add: photometric_draws_def random_def Let_def split_def eval_nat_numeral)
  show ?thesis
  proof (cases "img_width img = 0 \<or> img_height img = 0")
    case True
    from applyAugmentation_zero [OF True] hue True show ?thesis by auto
  next
    case False
    with dims have "0 < width cv1 \<and> 0 < height cv1" by simp
    with pixel_stage_hue [of pf p cv1 r1 x]
    have ps: "pixel_stage pf p cv1 (r1\<lparr>draws := (draws r1)(3 := x)\<rparr>) = pixel_stage pf p cv1 r1"
      by blast
    have "applyAugmentation pf img p index ts ?r' = applyAugmentation pf img p index ts r"
      by (simp add: applyAugmentation_def g g' ps)
    with hue show ?thesis by simp
  qed
qed

theorem hue_rotation_unused_witness:
  "applyAugmentation ex_pf \<lparr>img_width = 2, img_height = 1, img_src = []\<rparr> ex_params 5 0
     ((const_rng (1 / 2))\<lparr>draws := (draws (const_rng (1 / 2)))(10 := 9 / 10)\<rparr>) =
   applyAugmentation ex_pf \<lparr>img_width = 2, img_height = 1, img_src = []\<rparr> ex_params 5 0
     (const_rng (1 / 2))"
  using hue_rotation_unused
          [of ex_pf "\<lparr>img_width = 2, img_height = 1, img_src = []\<rparr>" ex_params 5 0
              "const_rng (1 / 2)" "9 / 10"]
  by simp

subsection \<open>The pixel loop, pixel by pixel\<close>

lemma adjust_pixel_nth:
  "j < length data \<Longrightarrow>
   adjust_pixel pf ph i data ! j =
     (if j = i then adjust_channel pf ph 0 (data ! i)
      else if j = i + 1 then adjust_channel pf ph 1 (data ! (i + 1))
      else if j = i + 2 then adjust_channel pf ph 2 (data ! (i + 2))
      else data ! j)"
  by (simp add: adjust_pixel_def nth_list_update)

lemma length_adjust_pixel: "length (adjust_pixel pf ph i data) = length data"
  by (simp add: adjust_pixel_def)

lemma noise_pixel_nth:
  "j < length data \<Longrightarrow>
   fst (noise_pixel p i data r) ! j =
     (if fires p (draws r 0) \<and> (j = i \<or> j = i + 1 \<or> j = i + 2)
      then (if draws r 1 > 1 / 2 then 255 else 0)
      else data ! j)"
  by (simp add: noise_pixel_def random_def Let_def split_def nth_list_update)

lemma noise_pixel_rng: "snd (noise_pixel p i data r) = noise_rng p r"
  by (simp add: noise_rng_def noise_pixel_def random_def Let_def split_def)

lemma noise_rng_eq:
  "noise_rng p r =
     (if fires p (draws r 0) then \<lparr>draws = (\<lambda>n. draws r (n + 2)), used = used r + 2\<rparr>
      else \<lparr>draws = (\<lambda>n. draws r (n + 1)), used = used r + 1\<rparr>)"
  by (simp add: noise_rng_def noise_pixel_def random_def Let_def split_def)

lemma pixel_step_nth:
  "j < length data \<Longrightarrow>
   fst (pixel_step pf p ph i data r) ! j =
     (if j = i \<or> j = i + 1 \<or> j = i + 2
      then (if fires p (draws r 0) then (if draws r 1 > 1 / 2 then 255 else 0)
            else adjust_channel pf ph (j - i) (data ! j))
      else data ! j)"
  by (auto simp: pixel_step_def noise_pixel_nth length_adjust_pixel adjust_pixel_nth)

lemma pixel_step_rng: "snd (pixel_step pf p ph i data r) = noise_rng p r"
  by (simp add: pixel_step_def noise_pixel_rng)

lemma length_pixel_step: "length (fst (pixel_step pf p ph i data r)) = length data"
  by (simp add: pixel_step_def noise_pixel_def adjust_pixel_def Let_def split_def)

lemma pixel_loop_nth:
  "(\<forall>j<i. j < length data \<longrightarrow> fst (pixel_loop pf p ph i data r) ! j = data ! j) \<and>
   (\<forall>k c. c < 4 \<and> i + 4 * k + c < length data \<longrightarrow>
      fst (pixel_loop pf p ph i data r) ! (i + 4 * k + c) =
      fst (pixel_step pf p ph (i + 4 * k) data (rng_at p k r)) ! (i + 4 * k + c))"
proof (induction pf p ph i data r rule: pixel_loop.induct)
  case (1 pf p ph i data r)
  show ?case
  proof (cases "i < length data")
    case False
    then show ?thesis by (subst pixel_loop.simps, subst pixel_loop.simps) simp
  next
    case True
    let ?d1 = "fst (pixel_step pf p ph i data r)"
    let ?r1 = "snd (pixel_step pf p ph i data r)"
    let ?final = "fst (pixel_loop pf p ph i data r)"
    have unfold: "pixel_loop pf p ph i data r = pixel_loop pf p ph (i + 4) ?d1 ?r1"
      using True by (subst pixel_loop.simps) simp
    have len: "length ?d1 = length data" by (rule length_pixel_step)
    note IH = "1.IH" [OF True, unfolded len]
    from IH have low: "\<And>j. j < i + 4 \<Longrightarrow> j < length data \<Longrightarrow> ?final ! j = ?d1 ! j"
      by (simp add: unfold)
    from IH have high: "\<And>k c. c < 4 \<Longrightarrow> i + 4 + 4 * k + c < length data \<Longrightarrow>
        ?final ! (i + 4 + 4 * k + c) =
        fst (pixel_step pf p ph (i + 4 + 4 * k) ?d1 (rng_at p k ?r1)) ! (i + 4 + 4 * k + c)"
      by (simp add: unfold)
    have A: "?final ! j = data ! j" if "j < i" "j < length data" for j
      using low [of j] that by (simp add: pixel_step_nth)
    have B: "?final ! (i + 4 * k + c) =
             fst (pixel_step pf p ph (i + 4 * k) data (rng_at p k r)) ! (i + 4 * k + c)"
      if c: "c < 4" and b: "i + 4 * k + c < length data" for k c
    proof (cases k)
      case 0
      with low [of "i + c"] c b show ?thesis by (simp add: rng_at_def)
    next
      case (Suc k')
      have rng: "rng_at p k' ?r1 = rng_at p k r"
        by (simp add: rng_at_def Suc pixel_step_rng funpow_swap1)
      have idx: "i + 4 * k + c = i + 4 + 4 * k' + c" "i + 4 * k = i + 4 + 4 * k'"
        by (simp_all add: Suc)
      have "?final ! (i + 4 + 4 * k' + c) =
            fst (pixel_step pf p ph (i + 4 + 4 * k') ?d1 (rng_at p k' ?r1)) ! (i + 4 + 4 * k' + c)"
        using high [of c k'] c b by (simp add: idx)
      also have "\<dots> = fst (pixel_step pf p ph (i + 4 + 4 * k') data (rng_at p k' ?r1)) !
                          (i + 4 + 4 * k' + c)"
        using b c by (simp add: pixel_step_nth len idx)
      finally show ?thesis by (simp add: idx rng)
    qed
    from A B show ?thesis by blast
  qed
qed


lemma unit_draws_noise_rng: "unit_draws r \<Longrightarrow> unit_draws (noise_rng p r)"
  by (simp add: noise_rng_eq unit_draws_def)

lemma unit_draws_rng_at: "unit_draws r \<Longrightarrow> unit_draws (rng_at p k r)"
  by (induction k) (simp_all add: rng_at_def unit_draws_noise_rng)

lemma rng_at_Suc: "rng_at p (Suc k) r = noise_rng p (rng_at p k r)"
  by (simp add: rng_at_def)

lemma pixel_loop_pixel:
  assumes "4 * k + 3 < length data"
  shows "fst (pixel_loop pf p ph 0 data r) ! (4 * k + 3) = data ! (4 * k + 3)"
    and "c < 3 \<Longrightarrow> fst (pixel_loop pf p ph 0 data r) ! (4 * k + c) =
           (if fires p (draws (rng_at p k r) 0)
            then (if draws (rng_at p k r) 1 > 1 / 2 then 255 else 0)
            else adjust_channel pf ph c (data ! (4 * k + c)))"
proof -
  from pixel_loop_nth [where i = 0 and data = data and pf = pf and p = p and ph = ph and r = r]
  have nth: "\<And>k c. c < 4 \<Longrightarrow> 4 * k + c < length data \<Longrightarrow>
      fst (pixel_loop pf p ph 0 data r) ! (4 * k + c) =
      fst (pixel_step pf p ph (4 * k) data (rng_at p k r)) ! (4 * k + c)"
    by simp
  show "fst (pixel_loop pf p ph 0 data r) ! (4 * k + 3) = data ! (4 * k + 3)"
    using nth [of 3 k] assms by (simp add: pixel_step_nth)
  show "fst (pixel_loop pf p ph 0 data r) ! (4 * k + c) =
           (if fires p (draws (rng_at p k r) 0)
            then (if draws (rng_at p k r) 1 > 1 / 2 then 255 else 0)
            else adjust_channel pf ph c (data ! (4 * k + c)))" if "c < 3"
  proof -
    from that have "c = 0 \<or> c = 1 \<or> c = 2" by auto
    moreover have "4 * k + c < length data" using assms that by simp
    ultimately show ?thesis using nth [of c k] that
      by (auto simp: pixel_step_nth)
  qed
qed



lemma adjust_channel_eq:
  "adjust_channel pf ph 0 d =
     ToUint8Clamp (js_min (Num 255) (js_max (Num 0)
       (js_mul
          (js_add
             (js_add
                (js_mul
                   (js_sub (js_mul (math_pow pf (rnd (real d / 255)) (pGamma ph)) (Num (rGain ph)))
                      (Num 0.5))
                   (Num (pContrast ph)))
                (Num 0.5))
             (Num (rnd (pBrightness ph / 255))))
          (Num 255))))"
  "adjust_channel pf ph 1 d =
     ToUint8Clamp (js_min (Num 255) (js_max (Num 0)
       (js_mul
          (js_add
             (js_add
                (js_mul
                   (js_sub (js_mul (math_pow pf (rnd (real d / 255)) (pGamma ph)) (Num (gGain ph)))
                      (Num 0.5))
                   (Num (pContrast ph)))
                (Num 0.5))
             (Num (rnd (pBrightness ph / 255))))
          (Num 255))))"
  "adjust_channel pf ph 2 d =
     ToUint8Clamp (js_min (Num 255) (js_max (Num 0)
       (js_mul
          (js_add
             (js_add
                (js_mul
                   (js_sub (js_mul (math_pow pf (rnd (real d / 255)) (pGamma ph)) (Num (bGain ph)))
                      (Num 0.5))
                   (Num (pContrast ph)))
                (Num 0.5))
             (Num (rnd (pBrightness ph / 255))))
          (Num 255))))"
  by (simp_all add: adjust_channel_def Let_def)

text \<open>
  A zero byte under a negative gamma and a contrast of 0: the power is \<open>Infinity\<close>, its
  product with the contrast is \<open>NaN\<close>, and the byte stored is 0.
\<close>

lemma js_mul_not_Num:
  assumes "\<And>v. x \<noteq> Num v"
  shows "js_mul x (Num g) \<noteq> Num w"
  using assms by (cases x) (auto split: if_splits)

lemma js_sub_not_Num:
  assumes "\<And>v. x \<noteq> Num v"
  shows "js_sub x (Num h) \<noteq> Num w"
  using assms by (cases x) (auto simp: js_sub_def)

lemma js_mul_zero_NaN:
  assumes "\<And>v. x \<noteq> Num v"
  shows "js_mul x (Num 0) = NaN"
  using assms by (cases x) auto

lemma adjust_channel_nan:
  assumes "pGamma ph < 0" and "pContrast ph = 0"
  shows "adjust_channel pf ph c 0 = 0"
proof -
  define val0 where "val0 = math_pow pf 0 (pGamma ph)"
  define val1 where "val1 = (if c = 0 then js_mul val0 (Num (rGain ph)) else val0)"
  define val2 where "val2 = (if c = 1 then js_mul val1 (Num (gGain ph)) else val1)"
  define val3 where "val3 = (if c = 2 then js_mul val2 (Num (bGain ph)) else val2)"
  have "val0 = PInf" using assms(1) by (simp add: val0_def math_pow_def)
  then have n0: "val0 \<noteq> Num v" for v by simp
  have n1: "val1 \<noteq> Num v" for v
    unfolding val1_def using n0 js_mul_not_Num [of val0] by (cases "c = 0") auto
  have n2: "val2 \<noteq> Num v" for v
    unfolding val2_def using n1 js_mul_not_Num [of val1] by (cases "c = 1") auto
  have n3: "val3 \<noteq> Num v" for v
    unfolding val3_def using n2 js_mul_not_Num [of val2] by (cases "c = 2") auto
  have "js_sub val3 (Num 0.5) \<noteq> Num v" for v
    using n3 by (intro js_sub_not_Num) auto
  then have nan: "js_mul (js_sub val3 (Num 0.5)) (Num 0) = NaN"
    by (intro js_mul_zero_NaN) auto
  have "adjust_channel pf ph c 0 =
      ToUint8Clamp (js_min (Num 255) (js_max (Num 0)
        (js_mul
           (js_add (js_add (js_mul (js_sub val3 (Num 0.5)) (Num (pContrast ph))) (Num 0.5))
              (Num (rnd (pBrightness ph / 255))))
           (Num 255))))"
    unfolding adjust_channel_def Let_def val3_def val2_def val1_def val0_def by simp
  also have "\<dots> = 0" unfolding assms(2) nan by simp
  finally show ?thesis .
qed

lemma photometric_fields:
  "pBrightness (fst (photometric_draws p r)) =
     rnd (rnd (rnd (lightAging p / 100) * rnd (draws r 0 - 0.5)) * 150)"
  "pContrast (fst (photometric_draws p r)) = rnd (0.5 + rnd (draws r 1 * rnd (lightAging p / 50)))"
  "pGamma (fst (photometric_draws p r)) = rnd (0.5 + rnd (draws r 2 * rnd (lightAging p / 50)))"
  "hueRotation (fst (photometric_draws p r)) = (lightAging p / 100) * 360 * draws r 3"
  "rGain (fst (photometric_draws p r)) = rnd (rnd 0.8 + rnd (draws r 4 * rnd 0.4))"
  "gGain (fst (photometric_draws p r)) = rnd (rnd 0.8 + rnd (draws r 5 * rnd 0.4))"
  "bGain (fst (photometric_draws p r)) = rnd (rnd 0.8 + rnd (draws r 6 * rnd 0.4))"
  by (simp_all add: photometric_draws_def random_def Let_def split_def eval_nat_numeral)

lemma photometric_rng:
  "snd (photometric_draws p r) = \<lparr>draws = (\<lambda>n. draws r (n + 7)), used = used r + 7\<rparr>"
  by (simp add: photometric_draws_def random_def Let_def split_def eval_nat_numeral)


subsection \<open>The bound of the noise trial\<close>

lemma threshold_unit:
  assumes "0 \<le> h" and "h \<le> 5000"
  shows "0 \<le> rnd (1 - rnd (h / 5000))" and "rnd (1 - rnd (h / 5000)) \<le> 1"
    and "\<bar>rnd (1 - rnd (h / 5000)) - (1 - h / 5000)\<bar> \<le> 1 / 2 ^ 53"
proof -
  define a where "a = rnd (h / 5000)"
  have a0: "0 \<le> a" unfolding a_def using assms(1) by (intro rnd_nonneg) simp
  have "rnd (h / 5000) \<le> rnd 1" using assms(2) by (intro rnd_mono) simp
  then have a1: "a \<le> 1" by (simp add: a_def)
  have ea: "\<bar>a - h / 5000\<bar> \<le> 1 / 2 ^ 54"
    unfolding a_def using assms by (intro rnd_err_unit) simp
  have eb: "\<bar>rnd (1 - a) - (1 - a)\<bar> \<le> 1 / 2 ^ 54"
    using a0 a1 by (intro rnd_err_unit) simp
  have "0 \<le> rnd (1 - a)" using a1 by (intro rnd_nonneg) simp
  then show "0 \<le> rnd (1 - rnd (h / 5000))" by (simp add: a_def)
  have "rnd (1 - a) \<le> rnd 1" using a0 by (intro rnd_mono) simp
  then show "rnd (1 - rnd (h / 5000)) \<le> 1" by (simp add: a_def)
  from ea eb have "\<bar>rnd (1 - a) - (1 - h / 5000)\<bar> \<le> 1 / 2 ^ 54 + 1 / 2 ^ 54" by linarith
  then show "\<bar>rnd (1 - rnd (h / 5000)) - (1 - h / 5000)\<bar> \<le> 1 / 2 ^ 53" by (simp add: a_def)
qed

lemma threshold_neg:
  assumes "h < 0"
  shows "1 \<le> rnd (1 - rnd (h / 5000))"
proof -
  have "rnd (h / 5000) \<le> 0" using assms by (intro rnd_nonpos) simp
  then have "1 \<le> 1 - rnd (h / 5000)" by simp
  then have "rnd 1 \<le> rnd (1 - rnd (h / 5000))" by (rule rnd_mono)
  then show ?thesis by simp
qed

lemma threshold_above:
  assumes "rnd h = h" and "5000 < h"
  shows "rnd (1 - rnd (h / 5000)) < 0"
proof -
  define a where "a = rnd (h / 5000)"
  define lo :: real where "lo = 1 + 1 / (5000 * 2 ^ 40)"
  from double_above_5000 [OF assms] have "lo \<le> h / 5000" by (simp add: lo_def field_simps)
  then have "rnd lo \<le> a" unfolding a_def by (rule rnd_mono)
  moreover have "rnd lo = 1 + 1 / 2 ^ 52" by (simp add: lo_def rnd_eval)
  ultimately have "1 - a \<le> - (1 / 2 ^ 52)" by simp
  then have "rnd (1 - a) \<le> rnd (- (1 / 2 ^ 52))" by (rule rnd_mono)
  moreover have "rnd (- (1 / 2 ^ 52)) = - (1 / 2 ^ 52)" by (simp add: rnd_eval)
  ultimately have "rnd (1 - a) < 0" by simp
  then show ?thesis by (simp add: a_def)
qed

lemma threshold_faint: "rnd (1 - rnd (harshness faint / 5000)) = cut1"
  by (simp add: faint_def cut1_def rnd_eval)

lemma cut1_double: "rnd cut1 = cut1"
  by (simp add: cut1_def rnd_eval)

lemma not_fires_half:
  assumes "harshness p \<le> 100"
  shows "\<not> fires p (1 / 2)"
proof -
  have "rnd (harshness p / 5000) \<le> rnd (1 / 2)" using assms by (intro rnd_mono) simp
  then have "1 / 2 \<le> 1 - rnd (harshness p / 5000)" by simp
  then have "rnd (1 / 2) \<le> rnd (1 - rnd (harshness p / 5000))" by (rule rnd_mono)
  then show ?thesis by (simp add: fires_def)
qed

subsection \<open>The ranges of the photometric parameters\<close>






subsection \<open>Two samples, evaluated\<close>

lemma gain_example: "rnd (rnd 0.8 + rnd (1 / 2 * rnd 0.4)) = 1"
  by (simp add: rnd_eval)

lemma photometric_example:
  assumes "lightAging p = 50"
    and "draws r 0 = 1 / 2" "draws r 1 = 1 / 2" "draws r 2 = 1 / 2" "draws r 3 = 1 / 2"
    and "draws r 4 = 1 / 2" "draws r 5 = 1 / 2" "draws r 6 = 1 / 2"
  shows "photometric_draws p r =
     (\<lparr>pBrightness = 0, pContrast = 1, pGamma = 1, hueRotation = 90, rGain = 1, gGain = 1,
        bGain = 1\<rparr>,
      \<lparr>draws = (\<lambda>n. draws r (n + 7)), used = used r + 7\<rparr>)"
proof -
  have "pBrightness (fst (photometric_draws p r)) = 0"
    unfolding photometric_fields assms by simp
  moreover have "pContrast (fst (photometric_draws p r)) = 1"
    unfolding photometric_fields assms by simp
  moreover have "pGamma (fst (photometric_draws p r)) = 1"
    unfolding photometric_fields assms by simp
  moreover have "hueRotation (fst (photometric_draws p r)) = 90"
    unfolding photometric_fields assms by simp
  moreover have "rGain (fst (photometric_draws p r)) = 1"
    unfolding photometric_fields assms by (rule gain_example)
  moreover have "gGain (fst (photometric_draws p r)) = 1"
    unfolding photometric_fields assms by (rule gain_example)
  moreover have "bGain (fst (photometric_draws p r)) = 1"
    unfolding photometric_fields assms by (rule gain_example)
  ultimately have "fst (photometric_draws p r) =
     \<lparr>pBrightness = 0, pContrast = 1, pGamma = 1, hueRotation = 90, rGain = 1, gGain = 1,
        bGain = 1\<rparr>"
    by (intro photometric.equality) simp_all
  then show ?thesis using photometric_rng [of p r] by (simp add: prod_eq_iff)
qed

lemma channel_example:
  assumes "pBrightness ph = 0" "pContrast ph = 1" "pGamma ph = 1"
    "rGain ph = 1" "gGain ph = 1" "bGain ph = 1" and c: "c = 0 \<or> c = 1 \<or> c = 2"
  shows "adjust_channel ex_pf ph c 10 = 10" "adjust_channel ex_pf ph c 20 = 20"
    "adjust_channel ex_pf ph c 30 = 30" "adjust_channel ex_pf ph c 0 = 0"
    "adjust_channel ex_pf ph c 128 = 128" "adjust_channel ex_pf ph c 255 = 255"
  using c
  by (elim disjE; simp add: assms adjust_channel_def math_pow_def ex_pf_def ex_pow_def js_sub_def
        fl_def rnd_eval)+

lemma pixel_loop_example:
  assumes "pBrightness ph = 0" "pContrast ph = 1" "pGamma ph = 1"
    "rGain ph = 1" "gGain ph = 1" "bGain ph = 1"
    and "\<not> fires p (draws r 0)" "\<not> fires p (draws r 1)"
  shows "pixel_loop ex_pf p ph 0 [10, 20, 30, 255, 0, 128, 255, 255] r =
     ([10, 20, 30, 255, 0, 128, 255, 255],
      \<lparr>draws = (\<lambda>n. draws r (n + 2)), used = used r + 2\<rparr>)"
  using assms(7,8)
  by (simp add: pixel_loop.simps pixel_step_def adjust_pixel_def noise_pixel_def random_def
        channel_example [OF assms(1-6)] Let_def)

lemma ex_pf_raster: "raster ex_pf w h cs = [10, 20, 30, 255, 0, 128, 255, 255]"
  by (simp add: ex_pf_def)

lemma dirt_example: "\<lfloor>rnd (rnd (rnd (1 / 20) * 30) * 3 / 4)\<rfloor> = 1"
  by (simp add: rnd_eval)

text \<open>
  Two runs of \<open>applyAugmentation\<close>, evaluated: a \<open>2 \<times> 1\<close> image with parameters
  \<open>(0, 50, 0)\<close> and every draw 0.5, which leaves the pixels as read and draws no
  overlay; and the same image with \<open>harshness = 60\<close>, where the fog overlay and one dirt
  mark are drawn.
\<close>

lemma applyAugmentation_example:
  "applyAugmentation ex_pf \<lparr>img_width = 2, img_height = 1, img_src = ''s''\<rparr> mid50 3
     1700000000000 (const_rng (1 / 2)) =
   (Inr \<lparr>id_n = 3,
         dataUrl = Jpeg \<lparr>width = 2, height = 1,
                          calls = [Save, Translate 1 (1 / 2), Transform 1 0 0 1 0 0, Rotate 0,
                                   DrawImage \<lparr>img_width = 2, img_height = 1, img_src = ''s''\<rparr>
                                     (- 1) (- 1 / 2),
                                   Restore,
                                   PutImageData [10, 20, 30, 255, 0, 128, 255, 255] 0 0]\<rparr>
                        (7 / 10),
         name = ''aug_1700000000000_3.jpg''\<rparr>,
    \<lparr>draws = (\<lambda>n. 1 / 2), used = 18\<rparr>)"
  by (simp add: applyAugmentation_def geometric_stage_def geometric_draws_def
        geometric_paint_def pixel_stage_def photometric_example pixel_loop_example
        not_fires_half ex_pf_raster
        fog_overlay_def rain_overlay_def glare_overlay_def artifact_stage_def dirtCount_def
        draw_def file_name_def string_of_nat.simps digit_def random_def
        mid50_def const_rng_def Let_def)

lemma applyAugmentation_example_fog:
  "fst (applyAugmentation ex_pf \<lparr>img_width = 2, img_height = 1, img_src = ''s''\<rparr> foggy 0
     1700000000000 late_rng) =
   Inr \<lparr>id_n = 0,
         dataUrl = Jpeg \<lparr>width = 2, height = 1,
                          calls = [Save, Translate 1 (1 / 2), Transform 1 0 0 1 0 0, Rotate 0,
                                   DrawImage \<lparr>img_width = 2, img_height = 1, img_src = ''s''\<rparr>
                                     (- 1) (- 1 / 2),
                                   Restore,
                                   PutImageData [10, 20, 30, 255, 0, 128, 255, 255] 0 0,
                                   SetFillStyle (LinearGradient 0 0 0 1
                                     [(0, Rgba 200 200 200 (9 / 40)),
                                      (1, Rgba 255 255 255 (9 / 200))]),
                                   FillRect 0 0 2 1,
                                   SetFillStyle (Color (Rgba (75 / 2) (75 / 2) (75 / 2) (3 / 8))),
                                   BeginPath,
                                   Arc (3 / 2) (3 / 4) (43 / 40) 0 (pi * 2),
                                   Fill]\<rparr>
                        (8 / 10),
         name = ''aug_1700000000000_0.jpg''\<rparr> \<and>
   used (snd (applyAugmentation ex_pf \<lparr>img_width = 2, img_height = 1, img_src = ''s''\<rparr> foggy 0
     1700000000000 late_rng)) = 28"
  by (simp add: applyAugmentation_def geometric_stage_def geometric_draws_def
        geometric_paint_def pixel_stage_def photometric_example pixel_loop_example
        not_fires_half ex_pf_raster dirt_example
        fog_overlay_def rain_overlay_def glare_overlay_def artifact_stage_def dirtCount_def
        dirt_mark_def draw_def file_name_def string_of_nat.simps digit_def random_def
        foggy_def late_rng_def Let_def)

text \<open>
  A byte of 50 under a gain draw of 0.125, with contrast and gamma 1 and no brightness
  offset: the gain is the double \<open>0.8500000000000001\<close>, the value to store is
  \<open>42.50000000000001\<close>, and the byte stored is 43.
\<close>

lemma cast_fields:
  "pBrightness (fst (photometric_draws mid50 cast_rng)) = 0"
  "pContrast (fst (photometric_draws mid50 cast_rng)) = 1"
  "pGamma (fst (photometric_draws mid50 cast_rng)) = 1"
  "rGain (fst (photometric_draws mid50 cast_rng)) = 1914029841632461 / 2 ^ 51"
  by (simp_all add: photometric_fields mid50_def cast_rng_def rnd_eval)

lemma adjust_channel_rounded:
  "adjust_channel ex_pf (fst (photometric_draws mid50 cast_rng)) 0 50 = 43"
  by (simp add: adjust_channel_eq cast_fields math_pow_def ex_pf_def ex_pow_def js_sub_def
        fl_def rnd_eval)

subsection \<open>Noise\<close>

text \<open>
  C6, as the claim states it, fails on the probability: the trial compares the draw with
  the double that the source computes for \<open>1 - harshness / 5000\<close>, which is not that
  number. At \<open>harshness = 1\<close> the double is \<open>cut1\<close>, above \<open>1 - 1 / 5000\<close>: a draw equal
  to \<open>cut1\<close> is a double of \<open>[0, 1)\<close> in the top \<open>1 / 5000\<close> of the interval and does
  not fire the trial, and the draws that fire form an interval of length \<open>1 - cut1\<close>,
  less than \<open>1 / 5000\<close>.
\<close>

theorem noise_threshold_rounded:
  "harshness faint = 1 \<and> rnd cut1 = cut1 \<and> 0 \<le> cut1 \<and> cut1 < 1 \<and>
   1 - harshness faint / 5000 < cut1 \<and>
   \<not> fires faint cut1 \<and>
   noise_pixel faint 0 [10, 20, 30, 255] (const_rng cut1) =
     ([10, 20, 30, 255], snd (random (const_rng cut1))) \<and>
   {u. 0 \<le> u \<and> u < 1 \<and> fires faint u} = {cut1 <..< 1} \<and>
   1 - cut1 < harshness faint / 5000"
proof -
  have f: "fires faint u \<longleftrightarrow> u > cut1" for u
    by (simp add: fires_def threshold_faint)
  have c: "0 \<le> cut1" "cut1 < 1" "1 - 1 / 5000 < cut1" "1 - cut1 < 1 / 5000"
    by (simp_all add: cut1_def)
  have h: "harshness faint = 1" by (simp add: faint_def)
  have n: "noise_pixel faint 0 [10, 20, 30, 255] (const_rng cut1) =
     ([10, 20, 30, 255], snd (random (const_rng cut1)))"
    by (simp add: noise_pixel_def random_def const_rng_def f)
  have s: "{u. 0 \<le> u \<and> u < 1 \<and> fires faint u} = {cut1 <..< 1}"
    using c(1) by (auto simp: f)
  from h c f [of cut1] n s cut1_double show ?thesis by simp
qed

text \<open>
  C6, amended. When the loop reaches pixel \<open>k\<close> it makes one noise trial on the next draw
  \<open>u\<close> of the stream, and the trial fires exactly when \<open>u\<close> exceeds the double \<open>T\<close> that
  the source computes for \<open>1 - harshness / 5000\<close> (a division and a subtraction, each
  rounded). For \<open>0 \<le> harshness \<le> 5000\<close> that double lies in \<open>[0, 1]\<close>, within
  \<open>2^-53\<close> of \<open>1 - harshness / 5000\<close>, and the draws of \<open>[0, 1)\<close> on which the trial
  fires are the interval \<open>(T, 1)\<close>: the probability of the trial under a uniform draw
  is \<open>1 - T\<close>, which is \<open>harshness / 5000\<close> up to \<open>2^-53\<close>. When it fires, the
  following draw chooses one value, 255 if it exceeds 0.5 and 0 otherwise, which is
  written to R, G and B; when it does not, the three channels keep their photometric
  values. Alpha is never written. Each pixel consumes its own draws (one, or two when
  the trial fires). At \<open>harshness = 0\<close> the double is 1 and no draw of \<open>[0, 1)\<close> fires
  the trial.
\<close>

theorem salt_and_pepper:
  assumes "4 * k + 3 < length data"
  shows "(fires p u \<longleftrightarrow> u > rnd (1 - rnd (harshness p / 5000))) \<and>
         (fires p (draws (rng_at p k r) 0) \<longrightarrow>
            fst (pixel_loop pf p ph 0 data r) ! (4 * k) =
              (if draws (rng_at p k r) 1 > 1 / 2 then 255 else 0) \<and>
            fst (pixel_loop pf p ph 0 data r) ! (4 * k + 1) =
              (if draws (rng_at p k r) 1 > 1 / 2 then 255 else 0) \<and>
            fst (pixel_loop pf p ph 0 data r) ! (4 * k + 2) =
              (if draws (rng_at p k r) 1 > 1 / 2 then 255 else 0)) \<and>
         (\<not> fires p (draws (rng_at p k r) 0) \<longrightarrow>
            fst (pixel_loop pf p ph 0 data r) ! (4 * k) =
              adjust_channel pf ph 0 (data ! (4 * k)) \<and>
            fst (pixel_loop pf p ph 0 data r) ! (4 * k + 1) =
              adjust_channel pf ph 1 (data ! (4 * k + 1)) \<and>
            fst (pixel_loop pf p ph 0 data r) ! (4 * k + 2) =
              adjust_channel pf ph 2 (data ! (4 * k + 2))) \<and>
         fst (pixel_loop pf p ph 0 data r) ! (4 * k + 3) = data ! (4 * k + 3) \<and>
         rng_at p 0 r = r \<and>
         rng_at p (Suc k) r =
           (if fires p (draws (rng_at p k r) 0)
            then \<lparr>draws = (\<lambda>n. draws (rng_at p k r) (n + 2)), used = used (rng_at p k r) + 2\<rparr>
            else \<lparr>draws = (\<lambda>n. draws (rng_at p k r) (n + 1)), used = used (rng_at p k r) + 1\<rparr>) \<and>
         (0 \<le> harshness p \<and> harshness p \<le> 5000 \<longrightarrow>
            0 \<le> rnd (1 - rnd (harshness p / 5000)) \<and>
            rnd (1 - rnd (harshness p / 5000)) \<le> 1 \<and>
            \<bar>rnd (1 - rnd (harshness p / 5000)) - (1 - harshness p / 5000)\<bar> \<le> 1 / 2 ^ 53 \<and>
            {u. 0 \<le> u \<and> u < 1 \<and> fires p u} = {rnd (1 - rnd (harshness p / 5000)) <..< 1}) \<and>
         (harshness p = 0 \<longrightarrow>
            rnd (1 - rnd (harshness p / 5000)) = 1 \<and> {u. 0 \<le> u \<and> u < 1 \<and> fires p u} = {}) \<and>
         (harshness p = 0 \<and> unit_draws r \<longrightarrow> \<not> fires p (draws (rng_at p k r) 0))"
proof -
  let ?T = "rnd (1 - rnd (harshness p / 5000))"
  have a: "fires p u \<longleftrightarrow> u > ?T" by (simp add: fires_def)
  have b: "fst (pixel_loop pf p ph 0 data r) ! (4 * k + c) =
           (if fires p (draws (rng_at p k r) 0)
            then (if draws (rng_at p k r) 1 > 1 / 2 then 255 else 0)
            else adjust_channel pf ph c (data ! (4 * k + c)))" if "c < 3" for c
    using pixel_loop_pixel(2) [OF assms that] .
  have c: "fst (pixel_loop pf p ph 0 data r) ! (4 * k + 3) = data ! (4 * k + 3)"
    using pixel_loop_pixel(1) [OF assms] .
  have d: "rng_at p 0 r = r" by (simp add: rng_at_def)
  have e: "rng_at p (Suc k) r =
           (if fires p (draws (rng_at p k r) 0)
            then \<lparr>draws = (\<lambda>n. draws (rng_at p k r) (n + 2)), used = used (rng_at p k r) + 2\<rparr>
            else \<lparr>draws = (\<lambda>n. draws (rng_at p k r) (n + 1)), used = used (rng_at p k r) + 1\<rparr>)"
    by (simp only: rng_at_Suc noise_rng_eq)
  have f: "0 \<le> harshness p \<and> harshness p \<le> 5000 \<longrightarrow>
            0 \<le> ?T \<and> ?T \<le> 1 \<and> \<bar>?T - (1 - harshness p / 5000)\<bar> \<le> 1 / 2 ^ 53 \<and>
            {u. 0 \<le> u \<and> u < 1 \<and> fires p u} = {?T <..< 1}"
  proof
    assume h: "0 \<le> harshness p \<and> harshness p \<le> 5000"
    then have h0: "0 \<le> harshness p" and h1: "harshness p \<le> 5000" by simp_all
    note t = threshold_unit [OF h0 h1]
    have "{u. 0 \<le> u \<and> u < 1 \<and> fires p u} = {?T <..< 1}"
      using t(1) by (auto simp: fires_def)
    with t show "0 \<le> ?T \<and> ?T \<le> 1 \<and> \<bar>?T - (1 - harshness p / 5000)\<bar> \<le> 1 / 2 ^ 53 \<and>
            {u. 0 \<le> u \<and> u < 1 \<and> fires p u} = {?T <..< 1}" by blast
  qed
  have z: "harshness p = 0 \<longrightarrow> ?T = 1 \<and> {u. 0 \<le> u \<and> u < 1 \<and> fires p u} = {}"
    by (auto simp: fires_def)
  have g: "harshness p = 0 \<and> unit_draws r \<longrightarrow> \<not> fires p (draws (rng_at p k r) 0)"
  proof
    assume h: "harshness p = 0 \<and> unit_draws r"
    then have "unit_draws (rng_at p k r)" by (simp add: unit_draws_rng_at)
    then have "draws (rng_at p k r) 0 < 1" by (simp add: unit_draws_def)
    with h show "\<not> fires p (draws (rng_at p k r) 0)" by (simp add: fires_def)
  qed
  from b [of 0] b [of 1] b [of 2] have b': "(fires p (draws (rng_at p k r) 0) \<longrightarrow>
            fst (pixel_loop pf p ph 0 data r) ! (4 * k) =
              (if draws (rng_at p k r) 1 > 1 / 2 then 255 else 0) \<and>
            fst (pixel_loop pf p ph 0 data r) ! (4 * k + 1) =
              (if draws (rng_at p k r) 1 > 1 / 2 then 255 else 0) \<and>
            fst (pixel_loop pf p ph 0 data r) ! (4 * k + 2) =
              (if draws (rng_at p k r) 1 > 1 / 2 then 255 else 0)) \<and>
         (\<not> fires p (draws (rng_at p k r) 0) \<longrightarrow>
            fst (pixel_loop pf p ph 0 data r) ! (4 * k) =
              adjust_channel pf ph 0 (data ! (4 * k)) \<and>
            fst (pixel_loop pf p ph 0 data r) ! (4 * k + 1) =
              adjust_channel pf ph 1 (data ! (4 * k + 1)) \<and>
            fst (pixel_loop pf p ph 0 data r) ! (4 * k + 2) =
              adjust_channel pf ph 2 (data ! (4 * k + 2)))"
    by simp
  from a b' c d e f z g show ?thesis by blast
qed

theorem salt_and_pepper_witness:
  "fst (pixel_loop ex_pf all100 (fst (photometric_draws all100 (const_rng (127 / 128)))) 0
          [10, 20, 30, 200] (const_rng (127 / 128))) ! 0 = 255 \<and>
   fst (pixel_loop ex_pf all100 (fst (photometric_draws all100 (const_rng (127 / 128)))) 0
          [10, 20, 30, 200] (const_rng (127 / 128))) ! 1 = 255 \<and>
   fst (pixel_loop ex_pf all100 (fst (photometric_draws all100 (const_rng (127 / 128)))) 0
          [10, 20, 30, 200] (const_rng (127 / 128))) ! 2 = 255 \<and>
   fst (pixel_loop ex_pf all100 (fst (photometric_draws all100 (const_rng (127 / 128)))) 0
          [10, 20, 30, 200] (const_rng (127 / 128))) ! 3 = 200 \<and>
   {u. 0 \<le> u \<and> u < 1 \<and> fires all100 u} = {2206763817411543 / 2 ^ 51 <..< 1} \<and>
   \<bar>2206763817411543 / 2 ^ 51 - (1 - harshness all100 / 5000)\<bar> \<le> 1 / 2 ^ 53"
proof -
  let ?r = "const_rng (127 / 128)"
  let ?ph = "fst (photometric_draws all100 ?r)"
  have len: "4 * 0 + 3 < length [10, 20, 30, 200 :: nat]" by simp
  note t = salt_and_pepper [OF len, of all100 "127 / 128" ?r ex_pf ?ph]
  have T: "rnd (1 - rnd (harshness all100 / 5000)) = 2206763817411543 / 2 ^ 51"
    by (simp add: all100_def rnd_eval)
  have r0: "rng_at all100 0 ?r = ?r" by (simp add: rng_at_def)
  have f: "fires all100 (draws ?r 0)" by (simp add: fires_def T const_rng_def)
  have d1: "draws ?r 1 > 1 / 2" by (simp add: const_rng_def)
  have h: "0 \<le> harshness all100 \<and> harshness all100 \<le> 5000" by (simp add: all100_def)
  from t h have "{u. 0 \<le> u \<and> u < 1 \<and> fires all100 u} =
      {rnd (1 - rnd (harshness all100 / 5000)) <..< 1}"
    and "\<bar>rnd (1 - rnd (harshness all100 / 5000)) - (1 - harshness all100 / 5000)\<bar> \<le> 1 / 2 ^ 53"
    by blast+
  then have s: "{u. 0 \<le> u \<and> u < 1 \<and> fires all100 u} = {2206763817411543 / 2 ^ 51 <..< 1}"
    and s': "\<bar>2206763817411543 / 2 ^ 51 - (1 - harshness all100 / 5000)\<bar> \<le> 1 / 2 ^ 53"
    by (simp_all only: T)
  from t f have "fst (pixel_loop ex_pf all100 ?ph 0 [10, 20, 30, 200] ?r) ! (4 * 0) =
        (if draws (rng_at all100 0 ?r) 1 > 1 / 2 then 255 else 0) \<and>
      fst (pixel_loop ex_pf all100 ?ph 0 [10, 20, 30, 200] ?r) ! (4 * 0 + 1) =
        (if draws (rng_at all100 0 ?r) 1 > 1 / 2 then 255 else 0) \<and>
      fst (pixel_loop ex_pf all100 ?ph 0 [10, 20, 30, 200] ?r) ! (4 * 0 + 2) =
        (if draws (rng_at all100 0 ?r) 1 > 1 / 2 then 255 else 0)"
    by (simp only: r0)
  moreover from t have "fst (pixel_loop ex_pf all100 ?ph 0 [10, 20, 30, 200] ?r) ! (4 * 0 + 3) =
      [10, 20, 30, 200] ! (4 * 0 + 3)" by blast
  ultimately have px: "fst (pixel_loop ex_pf all100 ?ph 0 [10, 20, 30, 200] ?r) ! 0 = 255 \<and>
      fst (pixel_loop ex_pf all100 ?ph 0 [10, 20, 30, 200] ?r) ! 1 = 255 \<and>
      fst (pixel_loop ex_pf all100 ?ph 0 [10, 20, 30, 200] ?r) ! 2 = 255 \<and>
      fst (pixel_loop ex_pf all100 ?ph 0 [10, 20, 30, 200] ?r) ! 3 = 200"
    using d1 by (simp add: r0 numeral_2_eq_2)
  from px s s' show ?thesis by blast
qed

subsection \<open>Photometric adjustment\<close>




subsection \<open>Parameters are used as given\<close>

text \<open>
  C10, as the claim states it, fails at the boundary: with \<open>harshness = 5000\<close> the test
  is \<open>Math.random() > 0\<close>, and a draw of exactly 0 (which \<open>Math.random\<close> may return)
  does not fire the trial.
\<close>

theorem harshness_5000_zero_draw:
  "harshness edge5000 \<ge> 5000 \<and> unit_draws (const_rng 0) \<and>
   noise_pixel edge5000 0 [10, 20, 30, 255] (const_rng 0) =
     ([10, 20, 30, 255], snd (random (const_rng 0))) \<and>
   \<not> fires edge5000 (draws (const_rng 0) 0)"
  by (simp add: edge5000_def unit_draws_def const_rng_def noise_pixel_def fires_def
        random_def)

text \<open>
  C10, amended. No stage validates or clamps the parameters. The noise trial fires on
  every draw of \<open>[0, 1)\<close>, hence on every pixel, when \<open>harshness\<close> is a double above
  5000; at exactly 5000 it fires unless the draw is 0; for negative \<open>harshness\<close> it
  fires on no pixel. Brightness, contrast and gamma are computed from \<open>lightAging\<close> as
  given, and the mark count from \<open>dirtiness\<close> as given, in double arithmetic. Where a
  negative gamma sends a zero byte to \<open>Infinity\<close> and a contrast of 0 turns it into
  \<open>NaN\<close>, the byte stored is 0. Whatever the parameters, a sample is produced for an
  image of positive dimensions: no error is raised.
\<close>

theorem params_unchecked:
  "(rnd (harshness p) = harshness p \<and> harshness p > 5000 \<and> 0 \<le> u \<longrightarrow> fires p u) \<and>
   (harshness p = 5000 \<longrightarrow> (fires p u \<longleftrightarrow> 0 < u)) \<and>
   (harshness p < 0 \<and> u < 1 \<longrightarrow> \<not> fires p u) \<and>
   (unit_draws r \<and> rnd (harshness p) = harshness p \<and> harshness p > 5000 \<and>
    4 * k + 3 < length data \<longrightarrow>
      fst (pixel_loop pf p ph 0 data r) ! (4 * k) =
        (if draws (rng_at p k r) 1 > 1 / 2 then 255 else 0) \<and>
      fst (pixel_loop pf p ph 0 data r) ! (4 * k + 1) =
        (if draws (rng_at p k r) 1 > 1 / 2 then 255 else 0) \<and>
      fst (pixel_loop pf p ph 0 data r) ! (4 * k + 2) =
        (if draws (rng_at p k r) 1 > 1 / 2 then 255 else 0)) \<and>
   (unit_draws r \<and> harshness p < 0 \<and> 4 * k + 3 < length data \<longrightarrow>
      fst (pixel_loop pf p ph 0 data r) ! (4 * k) = adjust_channel pf ph 0 (data ! (4 * k)) \<and>
      fst (pixel_loop pf p ph 0 data r) ! (4 * k + 1) =
        adjust_channel pf ph 1 (data ! (4 * k + 1)) \<and>
      fst (pixel_loop pf p ph 0 data r) ! (4 * k + 2) =
        adjust_channel pf ph 2 (data ! (4 * k + 2))) \<and>
   pBrightness (fst (photometric_draws p r)) =
     rnd (rnd (rnd (lightAging p / 100) * rnd (draws r 0 - 0.5)) * 150) \<and>
   pContrast (fst (photometric_draws p r)) =
     rnd (0.5 + rnd (draws r 1 * rnd (lightAging p / 50))) \<and>
   pGamma (fst (photometric_draws p r)) =
     rnd (0.5 + rnd (draws r 2 * rnd (lightAging p / 50))) \<and>
   (pGamma ph < 0 \<and> pContrast ph = 0 \<longrightarrow> adjust_channel pf ph c 0 = 0) \<and>
   artifact_stage p cv r =
     dirt_marks (nat \<lfloor>rnd (rnd (rnd (dirtiness p / 100) * 30) * draws r 0)\<rfloor>) cv
       (snd (random r)) \<and>
   (0 < img_width img \<and> 0 < img_height img \<longrightarrow>
      (\<exists>g. fst (applyAugmentation pf img p index ts r) = Inr g))"
proof -
  have a1: "rnd (harshness p) = harshness p \<and> harshness p > 5000 \<and> 0 \<le> u \<longrightarrow> fires p u"
    using threshold_above [of "harshness p"] by (auto simp: fires_def)
  have a2: "harshness p = 5000 \<longrightarrow> (fires p u \<longleftrightarrow> 0 < u)"
    by (auto simp: fires_def)
  have a3: "harshness p < 0 \<and> u < 1 \<longrightarrow> \<not> fires p u"
    using threshold_neg [of "harshness p"] by (auto simp: fires_def)
  have hi: "fires p (draws (rng_at p k r) 0)"
    if "unit_draws r" "rnd (harshness p) = harshness p" "harshness p > 5000"
  proof -
    from that(1) have "unit_draws (rng_at p k r)" by (rule unit_draws_rng_at)
    then have "0 \<le> draws (rng_at p k r) 0" by (simp add: unit_draws_def)
    with threshold_above [OF that(2,3)] show ?thesis by (simp add: fires_def)
  qed
  have lo: "\<not> fires p (draws (rng_at p k r) 0)" if "unit_draws r" "harshness p < 0"
  proof -
    from that(1) have "unit_draws (rng_at p k r)" by (rule unit_draws_rng_at)
    then have "draws (rng_at p k r) 0 < 1" by (simp add: unit_draws_def)
    with threshold_neg [OF that(2)] show ?thesis by (simp add: fires_def)
  qed
  have b: "unit_draws r \<and> rnd (harshness p) = harshness p \<and> harshness p > 5000 \<and>
    4 * k + 3 < length data \<longrightarrow>
      fst (pixel_loop pf p ph 0 data r) ! (4 * k) =
        (if draws (rng_at p k r) 1 > 1 / 2 then 255 else 0) \<and>
      fst (pixel_loop pf p ph 0 data r) ! (4 * k + 1) =
        (if draws (rng_at p k r) 1 > 1 / 2 then 255 else 0) \<and>
      fst (pixel_loop pf p ph 0 data r) ! (4 * k + 2) =
        (if draws (rng_at p k r) 1 > 1 / 2 then 255 else 0)"
  proof
    assume h: "unit_draws r \<and> rnd (harshness p) = harshness p \<and> harshness p > 5000 \<and>
      4 * k + 3 < length data"
    then have len: "4 * k + 3 < length data" and f: "fires p (draws (rng_at p k r) 0)"
      using hi by simp_all
    from pixel_loop_pixel(2) [OF len, of 0 pf p ph r] pixel_loop_pixel(2) [OF len, of 1 pf p ph r]
      pixel_loop_pixel(2) [OF len, of 2 pf p ph r] f
    show "fst (pixel_loop pf p ph 0 data r) ! (4 * k) =
        (if draws (rng_at p k r) 1 > 1 / 2 then 255 else 0) \<and>
      fst (pixel_loop pf p ph 0 data r) ! (4 * k + 1) =
        (if draws (rng_at p k r) 1 > 1 / 2 then 255 else 0) \<and>
      fst (pixel_loop pf p ph 0 data r) ! (4 * k + 2) =
        (if draws (rng_at p k r) 1 > 1 / 2 then 255 else 0)"
      by simp
  qed
  have c: "unit_draws r \<and> harshness p < 0 \<and> 4 * k + 3 < length data \<longrightarrow>
      fst (pixel_loop pf p ph 0 data r) ! (4 * k) = adjust_channel pf ph 0 (data ! (4 * k)) \<and>
      fst (pixel_loop pf p ph 0 data r) ! (4 * k + 1) =
        adjust_channel pf ph 1 (data ! (4 * k + 1)) \<and>
      fst (pixel_loop pf p ph 0 data r) ! (4 * k + 2) =
        adjust_channel pf ph 2 (data ! (4 * k + 2))"
  proof
    assume h: "unit_draws r \<and> harshness p < 0 \<and> 4 * k + 3 < length data"
    then have len: "4 * k + 3 < length data" and f: "\<not> fires p (draws (rng_at p k r) 0)"
      using lo by simp_all
    from pixel_loop_pixel(2) [OF len, of 0 pf p ph r] pixel_loop_pixel(2) [OF len, of 1 pf p ph r]
      pixel_loop_pixel(2) [OF len, of 2 pf p ph r] f
    show "fst (pixel_loop pf p ph 0 data r) ! (4 * k) = adjust_channel pf ph 0 (data ! (4 * k)) \<and>
      fst (pixel_loop pf p ph 0 data r) ! (4 * k + 1) =
        adjust_channel pf ph 1 (data ! (4 * k + 1)) \<and>
      fst (pixel_loop pf p ph 0 data r) ! (4 * k + 2) =
        adjust_channel pf ph 2 (data ! (4 * k + 2))"
      by simp
  qed
  have n: "pGamma ph < 0 \<and> pContrast ph = 0 \<longrightarrow> adjust_channel pf ph c 0 = 0"
    using adjust_channel_nan [of ph pf c] by blast
  have d: "artifact_stage p cv r =
     dirt_marks (nat \<lfloor>rnd (rnd (rnd (dirtiness p / 100) * 30) * draws r 0)\<rfloor>) cv
       (snd (random r))"
    by (simp add: artifact_stage_def dirtCount_def random_def)
  have e: "0 < img_width img \<and> 0 < img_height img \<longrightarrow>
      (\<exists>g. fst (applyAugmentation pf img p index ts r) = Inr g)"
    using applyAugmentation_pos [of img pf p index ts r] by blast
  from a1 a2 a3 b c n d e photometric_fields(1-3) [of p r] show ?thesis by blast
qed

theorem params_unchecked_witness:
  "fires wild 0 \<and> \<not> fires (wild\<lparr>harshness := - 1\<rparr>) (1 / 2) \<and> fires edge5000 (1 / 2) \<and>
   fst (pixel_loop ex_pf wild (fst (photometric_draws wild (const_rng (1 / 2)))) 0
          [10, 20, 30, 255] (const_rng (1 / 2))) ! 0 = 0 \<and>
   fst (pixel_loop ex_pf wild (fst (photometric_draws wild (const_rng (1 / 2)))) 0
          [10, 20, 30, 255] (const_rng (1 / 2))) ! 1 = 0 \<and>
   fst (pixel_loop ex_pf wild (fst (photometric_draws wild (const_rng (1 / 2)))) 0
          [10, 20, 30, 255] (const_rng (1 / 2))) ! 2 = 0 \<and>
   fst (pixel_loop ex_pf (wild\<lparr>harshness := - 1\<rparr>)
          (fst (photometric_draws wild (const_rng (1 / 2)))) 0
          [10, 20, 30, 255] (const_rng (1 / 2))) ! 0 = 128 \<and>
   pGamma (fst (photometric_draws wild (const_rng (1 / 2)))) = 0 \<and>
   pContrast (fst (photometric_draws wild (const_rng (1 / 2)))) = 0 \<and>
   pGamma (fst (photometric_draws dark dark_rng)) = - 383 / 2 \<and>
   adjust_channel ex_pf (fst (photometric_draws dark dark_rng)) 1 0 = 0 \<and>
   artifact_stage wild cv100 (const_rng (1 / 2)) =
     dirt_marks 75 cv100 (snd (random (const_rng (1 / 2)))) \<and>
   (\<exists>g. fst (applyAugmentation ex_pf \<lparr>img_width = 2, img_height = 1, img_src = []\<rparr> wild 3 0
              (const_rng (1 / 2))) = Inr g)"
proof -
  let ?r = "const_rng (1 / 2)"
  let ?ph = "fst (photometric_draws wild ?r)"
  let ?neg = "wild\<lparr>harshness := - 1\<rparr>"
  let ?dk = "fst (photometric_draws dark dark_rng)"
  let ?img = "\<lparr>img_width = 2, img_height = 1, img_src = []\<rparr>"
  note t = params_unchecked [where p = wild and u = 0 and r = ?r and k = 0
             and data = "[10, 20, 30, 255]" and pf = ex_pf and ph = ?ph and cv = cv100
             and img = ?img and index = 3 and ts = 0 and c = 0]
  note tn = params_unchecked [where p = ?neg and u = "1 / 2" and r = ?r and k = 0
             and data = "[10, 20, 30, 255]" and pf = ex_pf and ph = ?ph and cv = cv100
             and img = ?img and index = 3 and ts = 0 and c = 0]
  note te = params_unchecked [where p = edge5000 and u = "1 / 2" and r = ?r and k = 0
             and data = "[10, 20, 30, 255]" and pf = ex_pf and ph = ?ph and cv = cv100
             and img = ?img and index = 3 and ts = 0 and c = 0]
  note td = params_unchecked [where p = dark and u = 0 and r = dark_rng and k = 0
             and data = "[10, 20, 30, 255]" and pf = ex_pf and ph = ?dk and cv = cv100
             and img = ?img and index = 3 and ts = 0 and c = 1]
  have ud: "unit_draws ?r" by (simp add: unit_draws_def const_rng_def)
  have len: "4 * 0 + 3 < length [10, 20, 30, 255 :: nat]" by simp
  have hw: "rnd (harshness wild) = harshness wild" "harshness wild > 5000"
    by (simp_all add: wild_def rnd_eval)
  have hn: "harshness ?neg < 0" by simp
  have he: "harshness edge5000 = 5000" by (simp add: edge5000_def)
  have r0: "rng_at wild 0 ?r = ?r" "rng_at ?neg 0 ?r = ?r" by (simp_all add: rng_at_def)
  from t hw have f1: "fires wild 0" by simp
  from tn hn have f2: "\<not> fires ?neg (1 / 2)" by simp
  from te he have f3: "fires edge5000 (1 / 2)" by simp
  from t ud hw len have "fst (pixel_loop ex_pf wild ?ph 0 [10, 20, 30, 255] ?r) ! (4 * 0) =
        (if draws (rng_at wild 0 ?r) 1 > 1 / 2 then 255 else 0) \<and>
      fst (pixel_loop ex_pf wild ?ph 0 [10, 20, 30, 255] ?r) ! (4 * 0 + 1) =
        (if draws (rng_at wild 0 ?r) 1 > 1 / 2 then 255 else 0) \<and>
      fst (pixel_loop ex_pf wild ?ph 0 [10, 20, 30, 255] ?r) ! (4 * 0 + 2) =
        (if draws (rng_at wild 0 ?r) 1 > 1 / 2 then 255 else 0)"
    by blast
  moreover have "\<not> draws (rng_at wild 0 ?r) 1 > 1 / 2"
    unfolding r0 by (simp add: const_rng_def)
  ultimately have px: "fst (pixel_loop ex_pf wild ?ph 0 [10, 20, 30, 255] ?r) ! 0 = 0 \<and>
      fst (pixel_loop ex_pf wild ?ph 0 [10, 20, 30, 255] ?r) ! 1 = 0 \<and>
      fst (pixel_loop ex_pf wild ?ph 0 [10, 20, 30, 255] ?r) ! 2 = 0"
    by (simp add: numeral_2_eq_2)
  from t have g: "pGamma ?ph = rnd (0.5 + rnd (draws ?r 2 * rnd (lightAging wild / 50)))"
    and c: "pContrast ?ph = rnd (0.5 + rnd (draws ?r 1 * rnd (lightAging wild / 50)))"
    and b: "pBrightness ?ph =
              rnd (rnd (rnd (lightAging wild / 100) * rnd (draws ?r 0 - 0.5)) * 150)"
    by blast+
  have v: "pGamma ?ph = 0" "pContrast ?ph = 0" "pBrightness ?ph = 0"
    unfolding g c b by (simp_all add: wild_def const_rng_def rnd_eval)
  have gn: "rGain ?ph = 1"
    by (simp add: photometric_fields const_rng_def rnd_eval)
  from tn ud hn len have "fst (pixel_loop ex_pf ?neg ?ph 0 [10, 20, 30, 255] ?r) ! (4 * 0) =
      adjust_channel ex_pf ?ph 0 ([10, 20, 30, 255] ! (4 * 0))"
    by blast
  moreover have "adjust_channel ex_pf ?ph 0 10 = 128"
    by (simp add: adjust_channel_eq v gn math_pow_def js_sub_def fl_def rnd_eval)
  ultimately have pn: "fst (pixel_loop ex_pf ?neg ?ph 0 [10, 20, 30, 255] ?r) ! 0 = 128"
    by simp
  from td have gd: "pGamma ?dk = rnd (0.5 + rnd (draws dark_rng 2 * rnd (lightAging dark / 50)))"
    and cd: "pContrast ?dk = rnd (0.5 + rnd (draws dark_rng 1 * rnd (lightAging dark / 50)))"
    by blast+
  have vd: "pGamma ?dk = - 383 / 2" "pContrast ?dk = 0"
    unfolding gd cd by (simp_all add: dark_def dark_rng_def rnd_eval)
  from td vd have nan: "adjust_channel ex_pf ?dk 1 0 = 0" by simp
  from t have "artifact_stage wild cv100 ?r =
     dirt_marks (nat \<lfloor>rnd (rnd (rnd (dirtiness wild / 100) * 30) * draws ?r 0)\<rfloor>) cv100
       (snd (random ?r))"
    by blast
  moreover have "\<lfloor>rnd (rnd (rnd (dirtiness wild / 100) * 30) * draws ?r 0)\<rfloor> = 75"
    by (simp add: wild_def const_rng_def rnd_eval)
  ultimately have dm: "artifact_stage wild cv100 ?r = dirt_marks 75 cv100 (snd (random ?r))"
    by simp
  from t have ex: "\<exists>g. fst (applyAugmentation ex_pf ?img wild 3 0 ?r) = Inr g" by simp
  from f1 f2 f3 px pn v(1,2) vd(1) nan dm ex show ?thesis by blast
qed

end
